theory Spec2Isabelle
  imports Main "HOL-Library.Word"
begin

section \<open>Bytes, exceptions and in-memory streams\<close>

text \<open>
  A Python \<open>bytes\<close> object is a list of 8-bit words; Python integers are unbounded
  and are modelled by \<open>int\<close>.
\<close>

type_synonym byte = "8 word"
type_synonym bytes = "byte list"

text \<open>
  The exceptions that the module raises itself (\<open>SerializationError\<close>,
  \<open>SerializationTruncationError\<close>, \<open>ValueError\<close>, \<open>NotImplementedError\<close>,
  \<open>AssertionError\<close>) carry their message; \<open>StructError\<close> is \<open>struct.error\<close>
  and \<open>IndexError\<close> is what \<open>x[0]\<close> raises on an empty \<open>bytes\<close>.
  \<open>SerializationTruncationError\<close> derives from \<open>Exception\<close>, not from
  \<open>SerializationError\<close>, so the two are unrelated classes.
\<close>

datatype error =
    SerializationError string
  | SerializationTruncationError string
  | ValueError string
  | StructError
  | IndexError
  | NotImplementedError
  | AssertionError

text \<open>
  \<open>BytesIO\<close>: a buffer with a cursor. \<open>BytesIO_new b\<close> is \<open>BytesIO(b)\<close>, with the
  cursor at 0.
\<close>

record BytesIO =
  buf :: bytes
  pos :: nat

definition BytesIO_new :: "bytes \<Rightarrow> BytesIO" where
  "BytesIO_new b = \<lparr>buf = b, pos = 0\<rparr>"

definition available :: "BytesIO \<Rightarrow> bytes" where
  "available f = drop (pos f) (buf f)"

text \<open>
  \<open>f.read(n)\<close> returns at most \<open>n\<close> bytes from the cursor on and advances the cursor
  by the number of bytes returned; a negative \<open>n\<close> reads up to the end of the buffer.
\<close>

definition BytesIO_read :: "BytesIO \<Rightarrow> int \<Rightarrow> bytes \<times> BytesIO" where
  "BytesIO_read f n =
     (let r = (if n < 0 then available f else take (nat n) (available f))
      in (r, f\<lparr>pos := pos f + length r\<rparr>))"

text \<open>
  \<open>f.write(b)\<close> overwrites from the cursor on, growing the buffer as needed (a cursor
  beyond the end is first padded with zero bytes), and advances the cursor by
  \<open>len(b)\<close>. Writing the empty string changes nothing.
\<close>

definition BytesIO_write :: "BytesIO \<Rightarrow> bytes \<Rightarrow> BytesIO" where
  "BytesIO_write f b =
     (if b = [] then f
      else let padded = buf f @ replicate (pos f - length (buf f)) 0
           in \<lparr>buf = take (pos f) padded @ b @ drop (pos f + length b) padded,
               pos = pos f + length b\<rparr>)"

definition BytesIO_getvalue :: "BytesIO \<Rightarrow> bytes" where
  "BytesIO_getvalue f = buf f"

text \<open>
  A computation on a stream either raises or returns a value; in both cases the
  stream is left in the state that the computation reached.
\<close>

type_synonym 'a io = "BytesIO \<Rightarrow> (error + 'a) \<times> BytesIO"

definition returns :: "'a \<Rightarrow> 'a io" where
  "returns x f = (Inr x, f)"

definition raises :: "error \<Rightarrow> 'a io" where
  "raises e f = (Inl e, f)"

definition and_then :: "'a io \<Rightarrow> ('a \<Rightarrow> 'b io) \<Rightarrow> 'b io" where
  "and_then m k f =
     (case m f of
        (Inl e, f') \<Rightarrow> (Inl e, f')
      | (Inr x, f') \<Rightarrow> k x f')"

text \<open>A pure computation that may raise, run inside a stream computation.\<close>

definition lift :: "error + 'a \<Rightarrow> 'a io" where
  "lift r f = (r, f)"

definition do_write :: "bytes \<Rightarrow> unit io" where
  "do_write b f = (Inr (), BytesIO_write f b)"

section \<open>String formatting\<close>

text \<open>\<open>'%i' % n\<close>: the decimal numeral of an integer.\<close>

fun decimal :: "nat \<Rightarrow> string" where
  "decimal n =
     (if n < 10 then [''0123456789'' ! n]
      else decimal (n div 10) @ [''0123456789'' ! (n mod 10)])"

declare decimal.simps [simp del]

definition fmt_i :: "int \<Rightarrow> string" where
  "fmt_i n = (if n < 0 then CHR ''-'' # decimal (nat (- n)) else decimal (nat n))"

text \<open>Reading a decimal numeral back, digit by digit.\<close>

definition is_digit :: "char \<Rightarrow> bool" where
  "is_digit c \<longleftrightarrow> c \<in> set ''0123456789''"

definition digit_value :: "char \<Rightarrow> nat" where
  "digit_value c = of_char c - 48"

fun read_decimal :: "nat \<Rightarrow> string \<Rightarrow> nat" where
  "read_decimal a [] = a"
| "read_decimal a (c # cs) = read_decimal (10 * a + digit_value c) cs"

section \<open>\<open>ser_read\<close>: reading from a stream safely\<close>

definition MAX_SIZE :: int where
  "MAX_SIZE = 0x02000000"

definition oversize_msg :: string where
  "oversize_msg = ''Asked to read 0x%x bytes; MAX_SIZE exceeded''"

definition truncation_msg :: "int \<Rightarrow> nat \<Rightarrow> string" where
  "truncation_msg n got =
     ''Asked to read '' @ fmt_i n @ '' bytes, but only got '' @ fmt_i (int got)"

definition ser_read :: "int \<Rightarrow> bytes io" where
  "ser_read n f =
     (if n > MAX_SIZE then (Inl (SerializationError oversize_msg), f)
      else let (r, f') = BytesIO_read f n
           in if int (length r) < n
              then (Inl (SerializationTruncationError (truncation_msg n (length r))), f')
              else (Inr r, f'))"

section \<open>\<open>bchr\<close>, \<open>bord\<close> and \<open>struct\<close>\<close>

text \<open>
  \<open>bchr = lambda x: bytes([x])\<close> raises \<open>ValueError\<close> unless \<open>0 <= x < 256\<close>;
  \<open>bord = lambda x: x[0]\<close> raises \<open>IndexError\<close> on the empty string.
\<close>

definition bchr :: "int \<Rightarrow> error + bytes" where
  "bchr x =
     (if 0 \<le> x \<and> x < 256 then Inr [word_of_int x]
      else Inl (ValueError ''bytes must be in range(0, 256)''))"

definition bord :: "bytes \<Rightarrow> error + int" where
  "bord x = (case x of [] \<Rightarrow> Inl IndexError | b # _ \<Rightarrow> Inr (uint b))"

text \<open>Little-endian byte strings of a given width, and their value.\<close>

fun int_to_le :: "nat \<Rightarrow> int \<Rightarrow> bytes" where
  "int_to_le 0 i = []"
| "int_to_le (Suc k) i = word_of_int (i mod 256) # int_to_le k (i div 256)"

fun le_to_int :: "bytes \<Rightarrow> int" where
  "le_to_int [] = 0"
| "le_to_int (b # bs) = uint b + 256 * le_to_int bs"

text \<open>
  The formats of \<open>struct\<close> that the module uses: \<open><H\<close>, \<open><I\<close> and \<open><Q\<close> are
  unsigned of 2, 4 and 8 bytes, \<open><i\<close> is signed of 4 bytes. \<open>struct.pack\<close> raises
  \<open>struct.error\<close> when the integer is out of the format's range, \<open>struct.unpack\<close>
  when the string has not the format's size; \<open>struct.unpack\<close> returns a tuple, here
  a list of one integer.
\<close>

datatype fmt = Fmt_H | Fmt_I | Fmt_Q | Fmt_i

fun fmt_size :: "fmt \<Rightarrow> nat" where
  "fmt_size Fmt_H = 2"
| "fmt_size Fmt_I = 4"
| "fmt_size Fmt_Q = 8"
| "fmt_size Fmt_i = 4"

fun fmt_signed :: "fmt \<Rightarrow> bool" where
  "fmt_signed Fmt_i = True"
| "fmt_signed _ = False"

definition struct_pack :: "fmt \<Rightarrow> int \<Rightarrow> error + bytes" where
  "struct_pack fm i =
     (let k = fmt_size fm in
      if fmt_signed fm
      then (if - (2 ^ (8 * k - 1)) \<le> i \<and> i < 2 ^ (8 * k - 1)
            then Inr (int_to_le k (i mod 2 ^ (8 * k))) else Inl StructError)
      else (if 0 \<le> i \<and> i < 2 ^ (8 * k)
            then Inr (int_to_le k i) else Inl StructError))"

definition struct_unpack :: "fmt \<Rightarrow> bytes \<Rightarrow> error + int list" where
  "struct_unpack fm s =
     (let k = fmt_size fm in
      if length s \<noteq> k then Inl StructError
      else let u = le_to_int s
           in Inr [if fmt_signed fm \<and> u \<ge> 2 ^ (8 * k - 1) then u - 2 ^ (8 * k) else u])"

text \<open>\<open>t[0]\<close> on a tuple.\<close>

definition item0 :: "'a list \<Rightarrow> error + 'a" where
  "item0 t = (case t of [] \<Rightarrow> Inl IndexError | x # _ \<Rightarrow> Inr x)"

section \<open>\<open>Serializer\<close>: serializing to and from a buffer\<close>

text \<open>
  \<open>Serializer.serialize\<close> and \<open>Serializer.deserialize\<close> call the class's own
  \<open>stream_serialize\<close> and \<open>stream_deserialize\<close>, here the first argument, on a fresh
  \<open>BytesIO\<close>.
\<close>

definition Serializer_serialize :: "('a \<Rightarrow> unit io) \<Rightarrow> 'a \<Rightarrow> error + bytes" where
  "Serializer_serialize stream_serialize obj =
     (case stream_serialize obj (BytesIO_new []) of
        (Inl e, f) \<Rightarrow> Inl e
      | (Inr u, f) \<Rightarrow> Inr (BytesIO_getvalue f))"

definition Serializer_deserialize :: "'a io \<Rightarrow> bytes \<Rightarrow> error + 'a" where
  "Serializer_deserialize stream_deserialize b = fst (stream_deserialize (BytesIO_new b))"

section \<open>\<open>VarIntSerializer\<close>\<close>

definition VarIntSerializer_stream_serialize :: "int \<Rightarrow> unit io" where
  "VarIntSerializer_stream_serialize i =
     (if i < 0 then raises (ValueError ''varint must be non-negative integer'')
      else if i < 0xfd then and_then (lift (bchr i)) do_write
      else if i \<le> 0xffff then
        and_then (lift (bchr 0xfd)) (\<lambda>m. and_then (do_write m) (\<lambda>u.
        and_then (lift (struct_pack Fmt_H i)) do_write))
      else if i \<le> 0xffffffff then
        and_then (lift (bchr 0xfe)) (\<lambda>m. and_then (do_write m) (\<lambda>u.
        and_then (lift (struct_pack Fmt_I i)) do_write))
      else
        and_then (lift (bchr 0xff)) (\<lambda>m. and_then (do_write m) (\<lambda>u.
        and_then (lift (struct_pack Fmt_Q i)) do_write)))"

definition VarIntSerializer_stream_deserialize :: "int io" where
  "VarIntSerializer_stream_deserialize =
     and_then (ser_read 1) (\<lambda>b. and_then (lift (bord b)) (\<lambda>r.
       if r < 0xfd then returns r
       else if r = 0xfd then
         and_then (ser_read 2) (\<lambda>s. and_then (lift (struct_unpack Fmt_H s)) (\<lambda>t. lift (item0 t)))
       else if r = 0xfe then
         and_then (ser_read 4) (\<lambda>s. and_then (lift (struct_unpack Fmt_I s)) (\<lambda>t. lift (item0 t)))
       else
         and_then (ser_read 8) (\<lambda>s. and_then (lift (struct_unpack Fmt_Q s)) (\<lambda>t. lift (item0 t)))))"

definition VarIntSerializer_serialize :: "int \<Rightarrow> error + bytes" where
  "VarIntSerializer_serialize = Serializer_serialize VarIntSerializer_stream_serialize"

definition VarIntSerializer_deserialize :: "bytes \<Rightarrow> error + int" where
  "VarIntSerializer_deserialize = Serializer_deserialize VarIntSerializer_stream_deserialize"

section \<open>\<open>BytesSerializer\<close> and \<open>VarStringSerializer\<close>\<close>

definition BytesSerializer_stream_serialize :: "bytes \<Rightarrow> unit io" where
  "BytesSerializer_stream_serialize b =
     and_then (VarIntSerializer_stream_serialize (int (length b))) (\<lambda>u. do_write b)"

definition BytesSerializer_stream_deserialize :: "bytes io" where
  "BytesSerializer_stream_deserialize =
     and_then VarIntSerializer_stream_deserialize (\<lambda>l. ser_read l)"

definition VarStringSerializer_stream_serialize :: "bytes \<Rightarrow> unit io" where
  "VarStringSerializer_stream_serialize s =
     (let l = int (length s)
      in and_then (VarIntSerializer_stream_serialize l) (\<lambda>u. do_write s))"

definition VarStringSerializer_stream_deserialize :: "bytes io" where
  "VarStringSerializer_stream_deserialize =
     and_then VarIntSerializer_stream_deserialize (\<lambda>l. ser_read l)"

section \<open>Vectors\<close>

text \<open>
  The two loops of the vector classes: \<open>for obj in objs: body(obj)\<close>, and
  \<open>for i in range(n): r.append(body())\<close> followed by the list \<open>r\<close>.
\<close>

fun for_each :: "('a \<Rightarrow> unit io) \<Rightarrow> 'a list \<Rightarrow> unit io" where
  "for_each body [] = returns ()"
| "for_each body (obj # objs) = and_then (body obj) (\<lambda>u. for_each body objs)"

fun for_range_append :: "nat \<Rightarrow> 'a io \<Rightarrow> 'a list \<Rightarrow> 'a list io" where
  "for_range_append 0 body r = returns r"
| "for_range_append (Suc k) body r = and_then body (\<lambda>x. for_range_append k body (r @ [x]))"

text \<open>
  \<open>VectorSerializer\<close>: \<open>inner_cls.stream_serialize\<close> and
  \<open>inner_cls.stream_deserialize\<close> are the first argument.
\<close>

definition VectorSerializer_stream_serialize :: "('a \<Rightarrow> unit io) \<Rightarrow> 'a list \<Rightarrow> unit io" where
  "VectorSerializer_stream_serialize inner_stream_serialize objs =
     and_then (VarIntSerializer_stream_serialize (int (length objs)))
       (\<lambda>u. for_each inner_stream_serialize objs)"

definition VectorSerializer_stream_deserialize :: "'a io \<Rightarrow> 'a list io" where
  "VectorSerializer_stream_deserialize inner_stream_deserialize =
     and_then VarIntSerializer_stream_deserialize
       (\<lambda>n. for_range_append (nat n) inner_stream_deserialize [])"

definition py_assert :: "bool \<Rightarrow> unit io" where
  "py_assert c = (if c then returns () else raises AssertionError)"

definition uint256VectorSerializer_stream_serialize :: "bytes list \<Rightarrow> unit io" where
  "uint256VectorSerializer_stream_serialize uints =
     and_then (VarIntSerializer_stream_serialize (int (length uints)))
       (\<lambda>u. for_each (\<lambda>uint. and_then (py_assert (length uint = 32)) (\<lambda>u. do_write uint)) uints)"

definition uint256VectorSerializer_stream_deserialize :: "bytes list io" where
  "uint256VectorSerializer_stream_deserialize =
     and_then VarIntSerializer_stream_deserialize
       (\<lambda>n. for_range_append (nat n) (ser_read 32) [])"

text \<open>
  \<open>intVectorSerialzer.stream_deserialize\<close> has no \<open>return\<close> statement: when its loop
  ends, the call returns Python's \<open>None\<close>. Its result is an optional list, \<open>None\<close>
  standing for Python's \<open>None\<close>. Each element appended to \<open>ints\<close> is the tuple that
  \<open>struct.unpack\<close> returns.
\<close>

definition intVectorSerialzer_stream_serialize :: "int list \<Rightarrow> unit io" where
  "intVectorSerialzer_stream_serialize ints =
     (let l = int (length ints)
      in and_then (VarIntSerializer_stream_serialize l)
           (\<lambda>u. for_each (\<lambda>i. and_then (lift (struct_pack Fmt_i i)) do_write) ints))"

definition intVectorSerialzer_stream_deserialize :: "int list list option io" where
  "intVectorSerialzer_stream_deserialize =
     and_then VarIntSerializer_stream_deserialize
       (\<lambda>l. and_then
          (for_range_append (nat l)
             (and_then (ser_read 4) (\<lambda>s. lift (struct_unpack Fmt_i s))) [])
          (\<lambda>ints. returns None))"

text \<open>
  What the specification says of a vector decode: \<open>k\<close> element decodes, one after the
  other from the stream \<open>f\<close>, each succeeding, give the elements \<open>xs\<close> in order and
  leave the stream \<open>f'\<close>.
\<close>

inductive elements_decoded :: "'a io \<Rightarrow> BytesIO \<Rightarrow> nat \<Rightarrow> 'a list \<Rightarrow> BytesIO \<Rightarrow> bool"
  for inner :: "'a io" where
  no_element: "elements_decoded inner f 0 [] f"
| next_element: "inner f = (Inr x, f1) \<Longrightarrow> elements_decoded inner f1 k xs f' \<Longrightarrow>
     elements_decoded inner f (Suc k) (x # xs) f'"

section \<open>\<open>Serializable\<close>\<close>

text \<open>
  A class is known by its name and by the names of the classes it inherits from, itself
  included (its method resolution order). \<open>isinstance(x, c)\<close> holds when \<open>c\<close> is among
  the classes that the class of \<open>x\<close> inherits from.
\<close>

record pyclass =
  class_name :: string
  mro :: "string list"

text \<open>
  An instance of a subclass of \<open>Serializable\<close>: its class, its identity (\<open>id(self)\<close>)
  and its own \<open>stream_serialize\<close>, which the subclass defines. The base class raises
  \<open>NotImplementedError\<close> there.
\<close>

record Serializable =
  cls :: pyclass
  ident :: nat
  stream_serialize :: "unit io"

definition isinstance :: "Serializable \<Rightarrow> pyclass \<Rightarrow> bool" where
  "isinstance x c = (class_name c \<in> set (mro (cls x)))"

definition Serializable_stream_serialize :: "unit io" where
  "Serializable_stream_serialize = raises NotImplementedError"

definition Serializable_serialize :: "Serializable \<Rightarrow> error + bytes" where
  "Serializable_serialize self =
     (case stream_serialize self (BytesIO_new []) of
        (Inl e, f) \<Rightarrow> Inl e
      | (Inr u, f) \<Rightarrow> Inr (BytesIO_getvalue f))"

definition Serializable_deserialize :: "'a io \<Rightarrow> bytes \<Rightarrow> error + 'a" where
  "Serializable_deserialize cls_stream_deserialize b =
     fst (cls_stream_deserialize (BytesIO_new b))"

text \<open>The result of \<open>__eq__\<close>: a truth value or \<open>NotImplemented\<close>.\<close>

datatype eq_result = NotImplemented | Bool bool

definition Serializable_eq :: "Serializable \<Rightarrow> Serializable \<Rightarrow> error + eq_result" where
  "Serializable_eq self other =
     (if \<not> isinstance other (cls self) \<and> \<not> isinstance self (cls other)
      then Inr NotImplemented
      else case Serializable_serialize self of
             Inl e \<Rightarrow> Inl e
           | Inr a \<Rightarrow>
               (case Serializable_serialize other of
                  Inl e \<Rightarrow> Inl e
                | Inr b \<Rightarrow> Inr (Bool (a = b))))"

definition Serializable_hash :: "(bytes \<Rightarrow> int) \<Rightarrow> Serializable \<Rightarrow> error + int" where
  "Serializable_hash hash self =
     (case Serializable_serialize self of Inl e \<Rightarrow> Inl e | Inr b \<Rightarrow> Inr (hash b))"

text \<open>
  The expression \<open>a == b\<close>: Python calls \<open>a.__eq__(b)\<close> (the right operand's method
  first when its class is a proper subclass of the left operand's); on
  \<open>NotImplemented\<close> it calls the other operand's method, and when both return
  \<open>NotImplemented\<close> the result is \<open>a is b\<close>.
\<close>

definition py_eq :: "Serializable \<Rightarrow> Serializable \<Rightarrow> error + bool" where
  "py_eq a b =
     (let swapped = (class_name (cls b) \<noteq> class_name (cls a) \<and> isinstance b (cls a));
          first = (if swapped then Serializable_eq b a else Serializable_eq a b);
          second = (if swapped then Serializable_eq a b else Serializable_eq b a)
      in case first of
           Inl e \<Rightarrow> Inl e
         | Inr (Bool v) \<Rightarrow> Inr v
         | Inr NotImplemented \<Rightarrow>
             (case second of
                Inl e \<Rightarrow> Inl e
              | Inr (Bool v) \<Rightarrow> Inr v
              | Inr NotImplemented \<Rightarrow> Inr (ident a = ident b)))"

text \<open>
  The encoding table of the specification: the value itself in one byte below
  \<open>0xfd\<close>, else a marker byte and the value in 2, 4 or 8 little-endian bytes.
\<close>

definition canonical_varint :: "int \<Rightarrow> bytes" where
  "canonical_varint i =
     (if i < 0xfd then [word_of_int i]
      else if i \<le> 0xffff then 0xfd # int_to_le 2 i
      else if i \<le> 0xffffffff then 0xfe # int_to_le 4 i
      else 0xff # int_to_le 8 i)"

text \<open>
  Fixtures: two classes deriving from \<open>Serializable\<close>, neither from the other, and
  instances whose \<open>stream_serialize\<close> writes the byte \<open>0x01\<close>.
\<close>

definition class_A :: pyclass where
  "class_A = \<lparr>class_name = ''A'', mro = [''A'', ''Serializable'', ''object'']\<rparr>"

definition class_B :: pyclass where
  "class_B = \<lparr>class_name = ''B'', mro = [''B'', ''Serializable'', ''object'']\<rparr>"

definition obj_a :: Serializable where
  "obj_a = \<lparr>cls = class_A, ident = 1, stream_serialize = do_write [0x01]\<rparr>"

definition obj_a' :: Serializable where
  "obj_a' = \<lparr>cls = class_A, ident = 2, stream_serialize = do_write [0x01]\<rparr>"

definition obj_b :: Serializable where
  "obj_b = \<lparr>cls = class_B, ident = 3, stream_serialize = do_write [0x01]\<rparr>"


text \<open>
  A fixture: an instance whose \<open>stream_serialize\<close> writes a vector of two byte strings
  with \<open>VectorSerializer\<close> and \<open>BytesSerializer\<close>.
\<close>

definition obj_v :: Serializable where
  "obj_v = \<lparr>cls = class_A, ident = 4,
            stream_serialize =
              VectorSerializer_stream_serialize BytesSerializer_stream_serialize [[1, 2], [3]]\<rparr>"


text \<open>
  A stream computation ignores appended bytes when each of its successful runs is
  repeated, with the same result and cursor, on the same stream with bytes appended to
  its buffer.
\<close>

definition ignores_appended :: "'a io \<Rightarrow> bool" where
  "ignores_appended m \<longleftrightarrow>
     (\<forall>f x f' t. m f = (Inr x, f') \<longrightarrow>
        m (f\<lparr>buf := buf f @ t\<rparr>) = (Inr x, f'\<lparr>buf := buf f' @ t\<rparr>))"


section \<open>Properties of \<open>ser_read\<close>\<close>

lemma read_short:
  assumes "int (length (available f)) < n"
  shows "BytesIO_read f n = (available f, f\<lparr>pos := pos f + length (available f)\<rparr>)"
  using assms by (simp add: BytesIO_read_def Let_def)

text \<open>
  C3. A request for more than \<open>MAX_SIZE = 0x02000000\<close> bytes raises
  \<open>SerializationError\<close> on every stream and leaves the stream exactly as it was (no
  read is made); a request for exactly \<open>MAX_SIZE\<close> bytes passes this check and does
  not raise \<open>SerializationError\<close>.
\<close>

theorem ser_read_oversize:
  "MAX_SIZE = 33554432 \<and>
   (n > MAX_SIZE \<longrightarrow> ser_read n f = (Inl (SerializationError oversize_msg), f)) \<and>
   (n \<le> MAX_SIZE \<longrightarrow> fst (ser_read n f) \<noteq> Inl (SerializationError m)) \<and>
   fst (ser_read 0x02000000 f) \<noteq> Inl (SerializationError m)"
  by (simp add: ser_read_def MAX_SIZE_def split: prod.splits)

theorem ser_read_oversize_witness:
  "ser_read 0x02000001 (BytesIO_new [1, 2, 3]) =
     (Inl (SerializationError oversize_msg), BytesIO_new [1, 2, 3]) \<and>
   fst (ser_read 0x02000000 (BytesIO_new [1, 2, 3])) \<noteq> Inl (SerializationError oversize_msg)"
proof -
  have gt: "(0x02000001::int) > MAX_SIZE"
    by (simp add: MAX_SIZE_def)
  from ser_read_oversize [of "0x02000001" "BytesIO_new [1, 2, 3]" oversize_msg] gt
  show ?thesis by blast
qed

lemma digit_nth:
  assumes "d < 10"
  shows "is_digit (''0123456789'' ! d) \<and> digit_value (''0123456789'' ! d) = d"
proof -
  have "d \<in> set [0..<10]" using assms by simp
  then have "d \<in> {0, 1, 2, 3, 4, 5, 6, 7, 8, 9}"
    by (auto simp: upt_rec)
  then show ?thesis
    by (auto simp: is_digit_def digit_value_def)
qed

lemma read_decimal_append:
  "read_decimal a (xs @ ys) = read_decimal (read_decimal a xs) ys"
  by (induction xs arbitrary: a) simp_all

lemma decimal_digits: "\<forall>c \<in> set (decimal n). is_digit c"
proof (induction n rule: decimal.induct)
  case (1 n)
  show ?case
  proof (cases "n < 10")
    case True
    then show ?thesis using digit_nth [of n] by (simp add: decimal.simps [of n])
  next
    case False
    then show ?thesis using 1 digit_nth [of "n mod 10"]
      by (simp add: decimal.simps [of n])
  qed
qed

lemma read_decimal_decimal: "read_decimal 0 (decimal n) = n"
proof (induction n rule: decimal.induct)
  case (1 n)
  show ?case
  proof (cases "n < 10")
    case True
    then show ?thesis using digit_nth [of n] by (simp add: decimal.simps [of n])
  next
    case False
    then show ?thesis using 1 digit_nth [of "n mod 10"]
      by (simp add: decimal.simps [of n] read_decimal_append)
  qed
qed

lemma takeWhile_digits:
  assumes "\<forall>c \<in> set xs. is_digit c" and "\<not> is_digit y"
  shows "takeWhile is_digit (xs @ y # ys) = xs"
  using assms by simp

lemma truncation_msg_inj:
  assumes "truncation_msg n g = truncation_msg n' g'" and "0 \<le> n" and "0 \<le> n'"
  shows "n = n' \<and> g = g'"
proof -
  let ?M = "'' bytes, but only got ''"
  have sp: "\<not> is_digit CHR '' ''" by (simp add: is_digit_def)
  have eq: "decimal (nat n) @ ?M @ decimal g = decimal (nat n') @ ?M @ decimal g'"
    using assms by (simp add: truncation_msg_def fmt_i_def)
  have "takeWhile is_digit (decimal (nat n) @ CHR '' '' # (''bytes, but only got '' @ decimal g))
      = decimal (nat n)"
    by (rule takeWhile_digits [OF decimal_digits sp])
  moreover have "takeWhile is_digit (decimal (nat n') @ CHR '' '' # (''bytes, but only got '' @ decimal g'))
      = decimal (nat n')"
    by (rule takeWhile_digits [OF decimal_digits sp])
  ultimately have d: "decimal (nat n) = decimal (nat n')"
    using eq by simp
  then have "read_decimal 0 (decimal (nat n)) = read_decimal 0 (decimal (nat n'))" by simp
  then have n: "n = n'" using assms(2,3) by (simp add: read_decimal_decimal)
  have "decimal g = decimal g'" using eq d by simp
  then have "read_decimal 0 (decimal g) = read_decimal 0 (decimal g')" by simp
  then show ?thesis using n by (simp add: read_decimal_decimal)
qed

text \<open>
  C4. When the stream holds fewer than \<open>n\<close> bytes after its cursor and \<open>n\<close> is within
  \<open>MAX_SIZE\<close>, \<open>ser_read\<close> raises \<open>SerializationTruncationError\<close>; its message is
  formatted from the requested count \<open>n\<close> and the number of bytes obtained, which is
  all that was available (and the cursor has moved over them), and both counts can be
  read back from it: no other pair of counts gives the same message. The exception is
  not a \<open>SerializationError\<close>.
\<close>

theorem ser_read_truncated:
  assumes "int (length (available f)) < n" and "n \<le> MAX_SIZE"
  shows "ser_read n f =
           (Inl (SerializationTruncationError (truncation_msg n (length (available f)))),
            f\<lparr>pos := pos f + length (available f)\<rparr>) \<and>
         (0 \<le> n' \<and> truncation_msg n' g' = truncation_msg n (length (available f)) \<longrightarrow>
            n' = n \<and> g' = length (available f)) \<and>
         fst (ser_read n f) \<noteq> Inl (SerializationError m)"
proof -
  have "0 \<le> n" using assms(1) by simp
  then have "0 \<le> n' \<and> truncation_msg n' g' = truncation_msg n (length (available f)) \<longrightarrow>
      n' = n \<and> g' = length (available f)"
    using truncation_msg_inj [of n' g' n "length (available f)"] by blast
  then show ?thesis
    using assms by (simp add: ser_read_def read_short)
qed

theorem ser_read_truncated_witness:
  "ser_read 5 (BytesIO_new [1, 2, 3]) =
     (Inl (SerializationTruncationError ''Asked to read 5 bytes, but only got 3''),
      \<lparr>buf = [1, 2, 3], pos = 3\<rparr>)"
proof -
  have a: "int (length (available (BytesIO_new [1, 2, 3]))) < 5"
    by (simp add: available_def BytesIO_new_def)
  have b: "(5::int) \<le> MAX_SIZE"
    by (simp add: MAX_SIZE_def)
  have d: "decimal 5 = ''5''" "decimal 3 = ''3''"
    by (simp_all add: decimal.simps)
  show ?thesis
    using ser_read_truncated [OF a b]
    by (simp add: available_def BytesIO_new_def truncation_msg_def fmt_i_def d)
qed

section \<open>Little-endian integers\<close>

lemma length_int_to_le [simp]: "length (int_to_le k i) = k"
  by (induction k arbitrary: i) auto

lemma le_to_int_int_to_le: "0 \<le> i \<Longrightarrow> i < 2 ^ (8 * k) \<Longrightarrow> le_to_int (int_to_le k i) = i"
proof (induction k arbitrary: i)
  case 0 then show ?case by simp
next
  case (Suc k)
  have "i < 256 * 2 ^ (8 * k)" using Suc.prems(2) by (simp add: power_add)
  then have "i div 256 < 2 ^ (8 * k)" by linarith
  moreover have "0 \<le> i div 256" using Suc.prems by simp
  ultimately have "le_to_int (int_to_le k (i div 256)) = i div 256" by (rule Suc.IH[rotated])
  then show ?case by (simp add: uint_word_of_int)
qed

lemma le_to_int_bounds: "0 \<le> le_to_int bs \<and> le_to_int bs < 2 ^ (8 * length bs)"
proof (induction bs)
  case Nil then show ?case by simp
next
  case (Cons b bs)
  have "uint b < 256" using uint_bounded[of b] by simp
  moreover have "0 \<le> uint b" by simp
  ultimately show ?case using Cons by (simp add: power_add)
qed

lemma int_to_le_le_to_int: "int_to_le (length bs) (le_to_int bs) = bs"
proof (induction bs)
  case Nil then show ?case by simp
next
  case (Cons b bs)
  have "uint b < 256" using uint_bounded[of b] by simp
  then have "(uint b + 256 * le_to_int bs) mod 256 = uint b" "(uint b + 256 * le_to_int bs) div 256 = le_to_int bs"
    by simp_all
  then show ?case using Cons by simp
qed

section \<open>Reading and writing a \<open>VarInt\<close>\<close>

lemma available_advance: "available (f\<lparr>pos := pos f + k\<rparr>) = drop k (available f)"
  by (simp add: available_def add.commute)

lemma ser_read_ok:
  assumes "0 \<le> n" and "n \<le> MAX_SIZE" and "nat n \<le> length (available f)"
  shows "ser_read n f = (Inr (take (nat n) (available f)), f\<lparr>pos := pos f + nat n\<rparr>)"
  using assms by (auto simp: ser_read_def BytesIO_read_def Let_def min_def)

lemma ser_read_1:
  assumes "available f = b # rest"
  shows "ser_read 1 f = (Inr [b], f\<lparr>pos := pos f + 1\<rparr>)"
  using ser_read_ok [of 1 f] assms by (simp add: MAX_SIZE_def)

lemma BytesIO_write_at_end:
  assumes "pos f = length (buf f)"
  shows "BytesIO_write f b = f\<lparr>buf := buf f @ b, pos := length (buf f) + length b\<rparr>"
  using assms by (simp add: BytesIO_write_def Let_def)

lemma varint_ser_tier1:
  assumes "0 \<le> i" and "i < 0xfd"
  shows "VarIntSerializer_stream_serialize i f = (Inr (), BytesIO_write f [word_of_int i])"
  using assms
  by (simp add: VarIntSerializer_stream_serialize_def and_then_def lift_def bchr_def do_write_def)

lemma varint_ser_tier2:
  assumes "0xfd \<le> i" and "i \<le> 0xffff"
  shows "VarIntSerializer_stream_serialize i f =
           (Inr (), BytesIO_write (BytesIO_write f [0xfd]) (int_to_le 2 i))"
  using assms
  by (simp add: VarIntSerializer_stream_serialize_def and_then_def lift_def bchr_def do_write_def
      struct_pack_def)

lemma varint_ser_tier3:
  assumes "0x10000 \<le> i" and "i \<le> 0xffffffff"
  shows "VarIntSerializer_stream_serialize i f =
           (Inr (), BytesIO_write (BytesIO_write f [0xfe]) (int_to_le 4 i))"
  using assms
  by (simp add: VarIntSerializer_stream_serialize_def and_then_def lift_def bchr_def do_write_def
      struct_pack_def)

lemma varint_ser_tier4:
  assumes "0xffffffff < i" and "i < 2 ^ 64"
  shows "VarIntSerializer_stream_serialize i f =
           (Inr (), BytesIO_write (BytesIO_write f [0xff]) (int_to_le 8 i))"
  using assms
  by (simp add: VarIntSerializer_stream_serialize_def and_then_def lift_def bchr_def do_write_def
      struct_pack_def)

lemma varint_ser_too_big:
  assumes "2 ^ 64 \<le> i"
  shows "VarIntSerializer_stream_serialize i f = (Inl StructError, BytesIO_write f [0xff])"
  using assms
  by (simp add: VarIntSerializer_stream_serialize_def and_then_def lift_def bchr_def do_write_def
      struct_pack_def)

lemma varint_deser_tier1:
  assumes "available f = b # rest" and "uint b < 0xfd"
  shows "VarIntSerializer_stream_deserialize f = (Inr (uint b), f\<lparr>pos := pos f + 1\<rparr>)"
  using assms
  by (simp add: VarIntSerializer_stream_deserialize_def and_then_def ser_read_1 lift_def
      bord_def returns_def)

lemma byte_marker_cases:
  fixes b :: byte
  assumes "0xfd \<le> uint b"
  shows "b = 0xfd \<or> b = 0xfe \<or> b = 0xff"
proof -
  have "uint b < 256" using uint_bounded [of b] by simp
  with assms have "uint b = 0xfd \<or> uint b = 0xfe \<or> uint b = 0xff" by arith
  then show ?thesis by (simp add: word_uint_eq_iff)
qed

lemma varint_deser_wide:
  assumes "available f = b # rest" and "0xfd \<le> uint b"
    and "k = (if b = 0xfd then 2 else if b = 0xfe then 4 else 8)"
    and "k \<le> length rest"
  shows "VarIntSerializer_stream_deserialize f =
           (Inr (le_to_int (take k rest)), f\<lparr>pos := pos f + 1 + k\<rparr>)"
proof -
  let ?f1 = "f\<lparr>pos := pos f + 1\<rparr>"
  have av: "available ?f1 = rest"
    using assms(1) available_advance [of f 1] by simp
  have rd: "ser_read (int k) ?f1 = (Inr (take k rest), f\<lparr>pos := pos f + 1 + k\<rparr>)"
    using ser_read_ok [of "int k" ?f1] assms(3,4) av by (simp add: MAX_SIZE_def)
  have len: "length (take k rest) = k"
    using assms(4) by simp
  consider "b = 0xfd" | "b = 0xfe" | "b = 0xff"
    using byte_marker_cases [OF assms(2)] by blast
  then show ?thesis
  proof cases
    case 1
    then have k: "k = 2" using assms(3) by simp
    show ?thesis
      using rd len unfolding k
      by (simp add: VarIntSerializer_stream_deserialize_def and_then_def ser_read_1 [OF assms(1)]
          lift_def bord_def 1 struct_unpack_def item0_def)
  next
    case 2
    then have k: "k = 4" using assms(3) by simp
    show ?thesis
      using rd len unfolding k
      by (simp add: VarIntSerializer_stream_deserialize_def and_then_def ser_read_1 [OF assms(1)]
          lift_def bord_def 2 struct_unpack_def item0_def)
  next
    case 3
    then have k: "k = 8" using assms(3) by simp
    show ?thesis
      using rd len unfolding k
      by (simp add: VarIntSerializer_stream_deserialize_def and_then_def ser_read_1 [OF assms(1)]
          lift_def bord_def 3 struct_unpack_def item0_def)
  qed
qed

lemma BytesIO_write_Cons:
  "BytesIO_write (BytesIO_write f [m]) bs = BytesIO_write f (m # bs)"
proof (cases "bs = []")
  case True
  then show ?thesis by (simp add: BytesIO_write_def)
next
  case False
  define padded where "padded = buf f @ replicate (pos f - length (buf f)) 0"
  have len: "pos f \<le> length padded" by (simp add: padded_def)
  let ?b1 = "take (pos f) padded @ [m] @ drop (pos f + 1) padded"
  have w1: "BytesIO_write f [m] = \<lparr>buf = ?b1, pos = pos f + 1\<rparr>"
    by (simp add: BytesIO_write_def Let_def padded_def)
  have l1: "pos f + 1 \<le> length ?b1" using len by simp
  have t1: "take (pos f + 1) ?b1 = take (pos f) padded @ [m]" using len by simp
  have d1: "drop (pos f + 1 + length bs) ?b1 = drop (pos f + length (m # bs)) padded"
    using len by (simp add: min_def add.commute)
  have "BytesIO_write \<lparr>buf = ?b1, pos = pos f + 1\<rparr> bs =
      \<lparr>buf = take (pos f + 1) ?b1 @ bs @ drop (pos f + 1 + length bs) ?b1, pos = pos f + 1 + length bs\<rparr>"
    using False l1 by (simp add: BytesIO_write_def Let_def del: take_append drop_append append.simps)
  also have "\<dots> = \<lparr>buf = take (pos f) padded @ (m # bs) @ drop (pos f + length (m # bs)) padded,
                     pos = pos f + length (m # bs)\<rparr>"
    unfolding t1 d1 by simp
  also have "\<dots> = BytesIO_write f (m # bs)"
    by (simp add: BytesIO_write_def Let_def padded_def)
  finally show ?thesis using w1 by simp
qed


lemma available_after_write:
  assumes "b \<noteq> []"
  shows "available ((BytesIO_write f b)\<lparr>pos := pos f\<rparr>) =
           b @ drop (pos f + length b) (buf f @ replicate (pos f - length (buf f)) 0)"
    and "pos (BytesIO_write f b) = pos f + length b"
  using assms by (simp_all add: BytesIO_write_def Let_def available_def)

lemma varint_ser_canonical:
  assumes "0 \<le> i" and "i < 2 ^ 64"
  shows "VarIntSerializer_stream_serialize i f = (Inr (), BytesIO_write f (canonical_varint i))"
proof -
  consider "i < 0xfd" | "0xfd \<le> i" "i \<le> 0xffff" | "0x10000 \<le> i" "i \<le> 0xffffffff"
    | "0xffffffff < i"
    by linarith
  then show ?thesis
  proof cases
    case 1
    then show ?thesis using assms by (simp add: varint_ser_tier1 canonical_varint_def)
  next
    case 2
    then show ?thesis by (simp add: varint_ser_tier2 canonical_varint_def BytesIO_write_Cons)
  next
    case 3
    then show ?thesis by (simp add: varint_ser_tier3 canonical_varint_def BytesIO_write_Cons)
  next
    case 4
    then show ?thesis using assms
      by (simp add: varint_ser_tier4 canonical_varint_def BytesIO_write_Cons)
  qed
qed

lemma canonical_varint_nonempty: "canonical_varint i \<noteq> []"
  by (simp add: canonical_varint_def)

lemma uint_byte_small:
  assumes "0 \<le> i" and "i < 256"
  shows "uint (word_of_int i :: byte) = i"
  using assms by (simp add: uint_word_of_int)

lemma varint_deser_canonical:
  assumes "0 \<le> i" and "i < 2 ^ 64" and "available f = canonical_varint i @ t"
  shows "VarIntSerializer_stream_deserialize f =
           (Inr i, f\<lparr>pos := pos f + length (canonical_varint i)\<rparr>)"
proof -
  consider "i < 0xfd" | "0xfd \<le> i" "i \<le> 0xffff" | "0x10000 \<le> i" "i \<le> 0xffffffff"
    | "0xffffffff < i"
    by linarith
  then show ?thesis
  proof cases
    case 1
    then have av: "available f = word_of_int i # t"
      using assms(3) by (simp add: canonical_varint_def)
    have u: "uint (word_of_int i :: byte) = i"
      using 1 assms(1) by (simp add: uint_byte_small)
    show ?thesis
      using varint_deser_tier1 [OF av] 1 u by (simp add: canonical_varint_def)
  next
    case 2
    then have av: "available f = 0xfd # (int_to_le 2 i @ t)"
      using assms(3) by (simp add: canonical_varint_def)
    have v: "le_to_int (int_to_le 2 i) = i"
      using 2 by (intro le_to_int_int_to_le) simp_all
    show ?thesis
      using varint_deser_wide [OF av, of 2] 2 v by (simp add: canonical_varint_def)
  next
    case 3
    then have av: "available f = 0xfe # (int_to_le 4 i @ t)"
      using assms(3) by (simp add: canonical_varint_def)
    have v: "le_to_int (int_to_le 4 i) = i"
      using 3 by (intro le_to_int_int_to_le) simp_all
    show ?thesis
      using varint_deser_wide [OF av, of 4] 3 v by (simp add: canonical_varint_def)
  next
    case 4
    then have av: "available f = 0xff # (int_to_le 8 i @ t)"
      using assms(3) by (simp add: canonical_varint_def)
    have v: "le_to_int (int_to_le 8 i) = i"
      using 4 assms(2) by (intro le_to_int_int_to_le) simp_all
    show ?thesis
      using varint_deser_wide [OF av, of 8] 4 v by (simp add: canonical_varint_def)
  qed
qed

section \<open>The \<open>VarInt\<close> codec\<close>

lemma serialize_canonical:
  assumes "0 \<le> i" and "i < 2 ^ 64"
  shows "VarIntSerializer_serialize i = Inr (canonical_varint i)"
  using assms canonical_varint_nonempty [of i]
  by (simp add: VarIntSerializer_serialize_def Serializer_serialize_def varint_ser_canonical
      BytesIO_write_def BytesIO_new_def BytesIO_getvalue_def)

lemma deserialize_canonical:
  assumes "0 \<le> i" and "i < 2 ^ 64"
  shows "VarIntSerializer_deserialize (canonical_varint i @ t) = Inr i"
proof -
  have "available (BytesIO_new (canonical_varint i @ t)) = canonical_varint i @ t"
    by (simp add: available_def BytesIO_new_def)
  from varint_deser_canonical [OF assms this] show ?thesis
    by (simp add: VarIntSerializer_deserialize_def Serializer_deserialize_def)
qed

text \<open>
  C1. For every integer \<open>0 \<le> i \<le> 2^64 - 1\<close>, \<open>VarIntSerializer.serialize(i)\<close>
  returns bytes that \<open>VarIntSerializer.deserialize\<close> decodes to \<open>i\<close>; and on any
  stream, after \<open>stream_serialize(i, f)\<close> and a seek back to where the cursor was,
  \<open>stream_deserialize(f)\<close> returns \<open>i\<close> and leaves the cursor where the write ended.
\<close>

theorem VarInt_round_trip:
  assumes "0 \<le> i" and "i \<le> 2 ^ 64 - 1"
  shows "(\<exists>e. VarIntSerializer_serialize i = Inr e \<and> VarIntSerializer_deserialize e = Inr i) \<and>
         (\<exists>f'. VarIntSerializer_stream_serialize i f = (Inr (), f') \<and>
               VarIntSerializer_stream_deserialize (f'\<lparr>pos := pos f\<rparr>) = (Inr i, f'))"
proof
  have lt: "i < 2 ^ 64" using assms(2) by simp
  show "\<exists>e. VarIntSerializer_serialize i = Inr e \<and> VarIntSerializer_deserialize e = Inr i"
    using serialize_canonical [OF assms(1) lt] deserialize_canonical [OF assms(1) lt, of "[]"]
    by simp
  let ?e = "canonical_varint i"
  let ?f' = "BytesIO_write f ?e"
  have ne: "?e \<noteq> []" by (rule canonical_varint_nonempty)
  have w: "VarIntSerializer_stream_serialize i f = (Inr (), ?f')"
    by (rule varint_ser_canonical [OF assms(1) lt])
  have p: "pos ?f' = pos f + length ?e"
    by (rule available_after_write(2) [OF ne])
  have "VarIntSerializer_stream_deserialize (?f'\<lparr>pos := pos f\<rparr>) =
          (Inr i, (?f'\<lparr>pos := pos f\<rparr>)\<lparr>pos := pos (?f'\<lparr>pos := pos f\<rparr>) + length ?e\<rparr>)"
    by (rule varint_deser_canonical [OF assms(1) lt]) (rule available_after_write(1) [OF ne])
  also have "(?f'\<lparr>pos := pos f\<rparr>)\<lparr>pos := pos (?f'\<lparr>pos := pos f\<rparr>) + length ?e\<rparr> = ?f'"
    using p by simp
  finally show "\<exists>f'. VarIntSerializer_stream_serialize i f = (Inr (), f') \<and>
               VarIntSerializer_stream_deserialize (f'\<lparr>pos := pos f\<rparr>) = (Inr i, f')"
    using w by blast
qed

theorem VarInt_round_trip_witness:
  "VarIntSerializer_serialize 65536 = Inr [0xfe, 0, 0, 1, 0] \<and>
   VarIntSerializer_deserialize [0xfe, 0, 0, 1, 0] = Inr 65536"
proof -
  have s: "VarIntSerializer_serialize 65536 = Inr [0xfe, 0, 0, 1, 0]"
    by code_simp
  have "(0::int) \<le> 65536" and "(65536::int) \<le> 2 ^ 64 - 1"
    by simp_all
  from VarInt_round_trip [OF this, of "BytesIO_new []"] s show ?thesis
    by auto
qed

text \<open>
  C2, amended. For every integer \<open>0 \<le> i \<le> 2^64 - 1\<close>, \<open>VarIntSerializer\<close>
  emits: one byte holding \<open>i\<close> when \<open>i < 0xfd\<close>; \<open>0xfd\<close> and the 2-byte
  little-endian value when \<open>0xfd \<le> i \<le> 0xffff\<close>; \<open>0xfe\<close> and the 4-byte
  little-endian value when \<open>0x10000 \<le> i \<le> 0xffffffff\<close>; \<open>0xff\<close> and the 8-byte
  little-endian value when \<open>i > 0xffffffff\<close>. On any stream these bytes are written
  at the cursor.
\<close>

theorem VarInt_canonical_tiers:
  assumes "0 \<le> i" and "i \<le> 2 ^ 64 - 1"
  shows "(i < 0xfd \<longrightarrow>
            (\<exists>b. VarIntSerializer_serialize i = Inr [b] \<and> uint b = i)) \<and>
         (0xfd \<le> i \<and> i \<le> 0xffff \<longrightarrow>
            (\<exists>le. VarIntSerializer_serialize i = Inr (0xfd # le) \<and> length le = 2 \<and> le_to_int le = i)) \<and>
         (0x10000 \<le> i \<and> i \<le> 0xffffffff \<longrightarrow>
            (\<exists>le. VarIntSerializer_serialize i = Inr (0xfe # le) \<and> length le = 4 \<and> le_to_int le = i)) \<and>
         (0xffffffff < i \<longrightarrow>
            (\<exists>le. VarIntSerializer_serialize i = Inr (0xff # le) \<and> length le = 8 \<and> le_to_int le = i)) \<and>
         (\<exists>e. VarIntSerializer_serialize i = Inr e \<and>
              VarIntSerializer_stream_serialize i f = (Inr (), BytesIO_write f e))"
proof -
  have lt: "i < 2 ^ 64" using assms(2) by simp
  note s = serialize_canonical [OF assms(1) lt]
  have 1: "i < 0xfd \<longrightarrow> (\<exists>b. VarIntSerializer_serialize i = Inr [b] \<and> uint b = i)"
    using s assms(1) by (simp add: canonical_varint_def uint_byte_small)
  have 2: "0xfd \<le> i \<and> i \<le> 0xffff \<longrightarrow>
      (\<exists>le. VarIntSerializer_serialize i = Inr (0xfd # le) \<and> length le = 2 \<and> le_to_int le = i)"
    using s le_to_int_int_to_le [of i 2] by (simp add: canonical_varint_def)
  have 3: "0x10000 \<le> i \<and> i \<le> 0xffffffff \<longrightarrow>
      (\<exists>le. VarIntSerializer_serialize i = Inr (0xfe # le) \<and> length le = 4 \<and> le_to_int le = i)"
    using s le_to_int_int_to_le [of i 4] by (simp add: canonical_varint_def)
  have 4: "0xffffffff < i \<longrightarrow>
      (\<exists>le. VarIntSerializer_serialize i = Inr (0xff # le) \<and> length le = 8 \<and> le_to_int le = i)"
    using s lt le_to_int_int_to_le [of i 8] by (simp add: canonical_varint_def)
  have 5: "\<exists>e. VarIntSerializer_serialize i = Inr e \<and>
              VarIntSerializer_stream_serialize i f = (Inr (), BytesIO_write f e)"
    using s varint_ser_canonical [OF assms(1) lt] by simp
  from 1 2 3 4 5 show ?thesis by blast
qed

theorem VarInt_canonical_tiers_witness:
  "VarIntSerializer_serialize 0xfc = Inr [0xfc] \<and>
   VarIntSerializer_serialize 0xfd = Inr [0xfd, 0xfd, 0] \<and>
   (\<exists>le. VarIntSerializer_serialize 0xfd = Inr (0xfd # le) \<and> length le = 2 \<and> le_to_int le = 0xfd)"
proof -
  have a: "VarIntSerializer_serialize 0xfc = Inr [0xfc]"
    and b: "VarIntSerializer_serialize 0xfd = Inr [0xfd, 0xfd, 0]"
    by code_simp+
  have "(0::int) \<le> 0xfd" and "(0xfd::int) \<le> 2 ^ 64 - 1"
    by simp_all
  from VarInt_canonical_tiers [OF this, of "BytesIO_new []"] a b show ?thesis
    by simp
qed

text \<open>
  C2 as stated, for every non-negative integer, fails at \<open>i = 2^64\<close>: the marker
  \<open>0xff\<close> is written, then \<open>struct.pack(b'<Q', i)\<close> raises \<open>struct.error\<close>, and
  no 8-byte value follows.
\<close>

theorem VarInt_tiers_counterexample:
  "VarIntSerializer_serialize 18446744073709551616 = Inl StructError \<and>
   VarIntSerializer_stream_serialize 18446744073709551616 (BytesIO_new []) =
     (Inl StructError, \<lparr>buf = [0xff], pos = 1\<rparr>)"
  by code_simp

text \<open>
  C9. For every negative integer \<open>i\<close>, \<open>VarIntSerializer.stream_serialize(i, f)\<close>
  raises \<open>ValueError\<close> and leaves the stream \<open>f\<close> as it was; so does
  \<open>VarIntSerializer.serialize(i)\<close>.
\<close>

theorem VarInt_negative_rejected:
  assumes "i < 0"
  shows "VarIntSerializer_stream_serialize i f =
           (Inl (ValueError ''varint must be non-negative integer''), f) \<and>
         VarIntSerializer_serialize i = Inl (ValueError ''varint must be non-negative integer'')"
  using assms
  by (simp add: VarIntSerializer_stream_serialize_def raises_def VarIntSerializer_serialize_def
      Serializer_serialize_def)

theorem VarInt_negative_rejected_witness:
  "VarIntSerializer_stream_serialize (- 1) \<lparr>buf = [7, 8], pos = 1\<rparr> =
     (Inl (ValueError ''varint must be non-negative integer''), \<lparr>buf = [7, 8], pos = 1\<rparr>) \<and>
   VarIntSerializer_serialize (- 1) = Inl (ValueError ''varint must be non-negative integer'')"
  using VarInt_negative_rejected [of "- 1" "\<lparr>buf = [7, 8], pos = 1\<rparr>"] by simp

lemma deserialize_wide_le:
  assumes "0 \<le> v" and "v < 2 ^ (8 * k)" and "0xfd \<le> uint b"
    and "k = (if b = 0xfd then 2 else if b = 0xfe then 4 else 8)"
  shows "VarIntSerializer_deserialize (b # int_to_le k v @ t) = Inr v"
proof -
  have av: "available (BytesIO_new (b # int_to_le k v @ t)) = b # (int_to_le k v @ t)"
    by (simp add: available_def BytesIO_new_def)
  have "k \<le> length (int_to_le k v @ t)" by simp
  from varint_deser_wide [OF av assms(3,4) this] le_to_int_int_to_le [OF assms(1,2)]
  show ?thesis
    by (simp add: VarIntSerializer_deserialize_def Serializer_deserialize_def)
qed

text \<open>
  C8. \<open>VarIntSerializer.stream_deserialize\<close> reads one byte; below \<open>0xfd\<close> that
  byte is the value; for \<open>0xfd\<close>, \<open>0xfe\<close> and \<open>0xff\<close> the value is the
  little-endian integer of the next 2, 4 and 8 bytes. No check of minimality is made:
  every value that fits a tier is decoded from that tier, whatever follows it in the
  buffer (so \<open>0xfd 0x05 0x00\<close> decodes to 5, which the encoder writes as \<open>0x05\<close>).
\<close>

theorem VarInt_decode_tiers:
  assumes "available f = b # rest"
  shows "(uint b < 0xfd \<longrightarrow>
            VarIntSerializer_stream_deserialize f = (Inr (uint b), f\<lparr>pos := pos f + 1\<rparr>)) \<and>
         (b = 0xfd \<and> 2 \<le> length rest \<longrightarrow>
            VarIntSerializer_stream_deserialize f =
              (Inr (le_to_int (take 2 rest)), f\<lparr>pos := pos f + 3\<rparr>)) \<and>
         (b = 0xfe \<and> 4 \<le> length rest \<longrightarrow>
            VarIntSerializer_stream_deserialize f =
              (Inr (le_to_int (take 4 rest)), f\<lparr>pos := pos f + 5\<rparr>)) \<and>
         (b = 0xff \<and> 8 \<le> length rest \<longrightarrow>
            VarIntSerializer_stream_deserialize f =
              (Inr (le_to_int (take 8 rest)), f\<lparr>pos := pos f + 9\<rparr>)) \<and>
         (0 \<le> v \<and> v \<le> 0xffff \<longrightarrow>
            VarIntSerializer_deserialize (0xfd # int_to_le 2 v @ t) = Inr v) \<and>
         (0 \<le> v \<and> v \<le> 0xffffffff \<longrightarrow>
            VarIntSerializer_deserialize (0xfe # int_to_le 4 v @ t) = Inr v) \<and>
         (0 \<le> v \<and> v \<le> 0xffffffffffffffff \<longrightarrow>
            VarIntSerializer_deserialize (0xff # int_to_le 8 v @ t) = Inr v)"
proof -
  have 1: "uint b < 0xfd \<longrightarrow>
      VarIntSerializer_stream_deserialize f = (Inr (uint b), f\<lparr>pos := pos f + 1\<rparr>)"
    using varint_deser_tier1 [OF assms] by simp
  have 2: "b = 0xfd \<and> 2 \<le> length rest \<longrightarrow>
      VarIntSerializer_stream_deserialize f = (Inr (le_to_int (take 2 rest)), f\<lparr>pos := pos f + 3\<rparr>)"
    using varint_deser_wide [OF assms, of 2] by simp
  have 3: "b = 0xfe \<and> 4 \<le> length rest \<longrightarrow>
      VarIntSerializer_stream_deserialize f = (Inr (le_to_int (take 4 rest)), f\<lparr>pos := pos f + 5\<rparr>)"
    using varint_deser_wide [OF assms, of 4] by simp
  have 4: "b = 0xff \<and> 8 \<le> length rest \<longrightarrow>
      VarIntSerializer_stream_deserialize f = (Inr (le_to_int (take 8 rest)), f\<lparr>pos := pos f + 9\<rparr>)"
    using varint_deser_wide [OF assms, of 8] by simp
  have 5: "0 \<le> v \<and> v \<le> 0xffff \<longrightarrow>
      VarIntSerializer_deserialize (0xfd # int_to_le 2 v @ t) = Inr v"
    using deserialize_wide_le [of v 2 "0xfd" t] by simp
  have 6: "0 \<le> v \<and> v \<le> 0xffffffff \<longrightarrow>
      VarIntSerializer_deserialize (0xfe # int_to_le 4 v @ t) = Inr v"
    using deserialize_wide_le [of v 4 "0xfe" t] by simp
  have 7: "0 \<le> v \<and> v \<le> 0xffffffffffffffff \<longrightarrow>
      VarIntSerializer_deserialize (0xff # int_to_le 8 v @ t) = Inr v"
    using deserialize_wide_le [of v 8 "0xff" t] by simp
  from 1 2 3 4 5 6 7 show ?thesis by blast
qed

theorem VarInt_decode_tiers_witness:
  "VarIntSerializer_deserialize [0xfd, 0x05, 0x00] = Inr 5 \<and>
   VarIntSerializer_serialize 5 = Inr [0x05] \<and>
   VarIntSerializer_stream_deserialize (BytesIO_new [0xfd, 0x05, 0x00]) =
     (Inr 5, \<lparr>buf = [0xfd, 0x05, 0x00], pos = 3\<rparr>)"
proof -
  have av: "available (BytesIO_new [0xfd, 0x05, 0x00]) = 0xfd # [0x05, 0x00]"
    by (simp add: available_def BytesIO_new_def)
  have le: "int_to_le 2 5 = [0x05, 0x00]"
    by code_simp
  have s: "VarIntSerializer_serialize 5 = Inr [0x05]"
    by code_simp
  from VarInt_decode_tiers [OF av, of 5 "[]"] le s show ?thesis
    by (simp add: BytesIO_new_def)
qed

section \<open>Vector decoding\<close>

lemma elements_decoded_length: "elements_decoded inner f k xs f' \<Longrightarrow> length xs = k"
  by (induction rule: elements_decoded.induct) simp_all

lemma elements_decoded_0 [simp]: "elements_decoded inner f 0 xs f' \<longleftrightarrow> xs = [] \<and> f' = f"
  by (auto elim: elements_decoded.cases intro: elements_decoded.intros)

lemma elements_decoded_Suc:
  "elements_decoded inner f (Suc k) ys f' \<longleftrightarrow>
     (\<exists>x f1 xs. inner f = (Inr x, f1) \<and> elements_decoded inner f1 k xs f' \<and> ys = x # xs)"
  by (auto elim: elements_decoded.cases intro: elements_decoded.intros)

lemma for_range_append_success:
  "for_range_append k inner r f = (Inr ys, f') \<longleftrightarrow>
     (\<exists>xs. ys = r @ xs \<and> elements_decoded inner f k xs f')"
proof (induction k arbitrary: r f)
  case 0
  then show ?case by (auto simp: returns_def)
next
  case (Suc k)
  show ?case
  proof (cases "inner f")
    case (Pair res f1)
    show ?thesis
    proof (cases res)
      case (Inl e)
      then show ?thesis using Pair by (simp add: and_then_def elements_decoded_Suc)
    next
      case (Inr x)
      then show ?thesis using Pair Suc.IH [of "r @ [x]" f1]
        by (auto simp: and_then_def elements_decoded_Suc)
    qed
  qed
qed

lemma for_range_append_failure:
  "for_range_append k inner r f = (Inl e, f') \<longleftrightarrow>
     (\<exists>j xs f1. j < k \<and> elements_decoded inner f j xs f1 \<and> inner f1 = (Inl e, f'))"
proof (induction k arbitrary: r f)
  case 0
  then show ?case by (simp add: returns_def)
next
  case (Suc k)
  show ?case
  proof (cases "inner f")
    case (Pair res f1)
    show ?thesis
    proof (cases res)
      case (Inl e1)
      show ?thesis
      proof
        assume "for_range_append (Suc k) inner r f = (Inl e, f')"
        then have "inner f = (Inl e, f')" using Pair Inl by (simp add: and_then_def)
        then have "0 < Suc k \<and> elements_decoded inner f 0 [] f \<and> inner f = (Inl e, f')"
          by simp
        then show "\<exists>j xs f1. j < Suc k \<and> elements_decoded inner f j xs f1 \<and> inner f1 = (Inl e, f')"
          by blast
      next
        assume "\<exists>j xs f1. j < Suc k \<and> elements_decoded inner f j xs f1 \<and> inner f1 = (Inl e, f')"
        then obtain j xs f2 where j: "j < Suc k" "elements_decoded inner f j xs f2"
          "inner f2 = (Inl e, f')" by blast
        have "j = 0"
        proof (cases j)
          case 0 then show ?thesis .
        next
          case (Suc j')
          then show ?thesis using j(2) Pair Inl by (simp add: elements_decoded_Suc)
        qed
        then have "f2 = f" using j(2) by simp
        then show "for_range_append (Suc k) inner r f = (Inl e, f')"
          using j(3) by (simp add: and_then_def)
      qed
    next
      case (Inr x)
      have step: "for_range_append (Suc k) inner r f = for_range_append k inner (r @ [x]) f1"
        using Pair Inr by (simp add: and_then_def)
      show ?thesis
      proof
        assume "for_range_append (Suc k) inner r f = (Inl e, f')"
        then obtain j xs f2 where j: "j < k" "elements_decoded inner f1 j xs f2"
          "inner f2 = (Inl e, f')"
          using step Suc.IH [of "r @ [x]" f1] by auto
        have "elements_decoded inner f (Suc j) (x # xs) f2"
          using Pair Inr j(2) by (simp add: elements_decoded_Suc)
        then show "\<exists>j xs f1. j < Suc k \<and> elements_decoded inner f j xs f1 \<and> inner f1 = (Inl e, f')"
          using j(1,3) by (meson Suc_less_eq)
      next
        assume "\<exists>j xs f1. j < Suc k \<and> elements_decoded inner f j xs f1 \<and> inner f1 = (Inl e, f')"
        then obtain j xs f2 where j: "j < Suc k" "elements_decoded inner f j xs f2"
          "inner f2 = (Inl e, f')" by blast
        show "for_range_append (Suc k) inner r f = (Inl e, f')"
        proof (cases j)
          case 0
          then have "f2 = f" using j(2) by simp
          then show ?thesis using j(3) Pair Inr by simp
        next
          case (Suc j')
          then obtain xs' where "elements_decoded inner f1 j' xs' f2"
            using j(2) Pair Inr by (auto simp: elements_decoded_Suc)
          moreover have "j' < k" using j(1) Suc by simp
          ultimately show ?thesis
            using step Suc.IH [of "r @ [x]" f1] j(3) by auto
        qed
      qed
    qed
  qed
qed

text \<open>
  C5. \<open>VectorSerializer.stream_deserialize\<close> first reads the count \<open>n\<close> as a VarInt,
  and fails as that read fails. Otherwise it returns a list exactly when \<open>n\<close> element
  decodes, one after the other, all succeed: the list is their results in order, of
  length \<open>n\<close>. It fails exactly when, after fewer than \<open>n\<close> successful element
  decodes, the next one fails: the result is then that failure, and no list.
\<close>

theorem VectorSerializer_decode_exact:
  "(VarIntSerializer_stream_deserialize f = (Inl e, f0) \<longrightarrow>
      VectorSerializer_stream_deserialize inner f = (Inl e, f0)) \<and>
   (VarIntSerializer_stream_deserialize f = (Inr n, f0) \<longrightarrow>
      (VectorSerializer_stream_deserialize inner f = (Inr xs, f') \<longleftrightarrow>
         elements_decoded inner f0 (nat n) xs f') \<and>
      (VectorSerializer_stream_deserialize inner f = (Inr xs, f') \<longrightarrow> length xs = nat n) \<and>
      (VectorSerializer_stream_deserialize inner f = (Inl e, f') \<longleftrightarrow>
         (\<exists>j ys f1. j < nat n \<and> elements_decoded inner f0 j ys f1 \<and> inner f1 = (Inl e, f'))))"
proof (intro conjI impI)
  assume "VarIntSerializer_stream_deserialize f = (Inl e, f0)"
  then show "VectorSerializer_stream_deserialize inner f = (Inl e, f0)"
    by (simp add: VectorSerializer_stream_deserialize_def and_then_def)
next
  assume n: "VarIntSerializer_stream_deserialize f = (Inr n, f0)"
  then have eq: "VectorSerializer_stream_deserialize inner f = for_range_append (nat n) inner [] f0"
    by (simp add: VectorSerializer_stream_deserialize_def and_then_def)
  show ok: "VectorSerializer_stream_deserialize inner f = (Inr xs, f') \<longleftrightarrow>
      elements_decoded inner f0 (nat n) xs f'"
    unfolding eq by (simp add: for_range_append_success)
  show "length xs = nat n" if "VectorSerializer_stream_deserialize inner f = (Inr xs, f')"
    using that ok elements_decoded_length by blast
  show "VectorSerializer_stream_deserialize inner f = (Inl e, f') \<longleftrightarrow>
      (\<exists>j ys f1. j < nat n \<and> elements_decoded inner f0 j ys f1 \<and> inner f1 = (Inl e, f'))"
    unfolding eq by (rule for_range_append_failure)
qed

theorem VectorSerializer_decode_exact_witness:
  "VectorSerializer_stream_deserialize VarIntSerializer_stream_deserialize (BytesIO_new [2, 5, 6, 7]) =
     (Inr [5, 6], \<lparr>buf = [2, 5, 6, 7], pos = 3\<rparr>) \<and>
   elements_decoded VarIntSerializer_stream_deserialize
     \<lparr>buf = [2, 5, 6, 7], pos = 1\<rparr> 2 [5, 6] \<lparr>buf = [2, 5, 6, 7], pos = 3\<rparr> \<and>
   VectorSerializer_stream_deserialize VarIntSerializer_stream_deserialize
       (BytesIO_new [3, 5, 6, 0xfd, 1]) =
     (Inl (SerializationTruncationError ''Asked to read 2 bytes, but only got 1''),
      \<lparr>buf = [3, 5, 6, 0xfd, 1], pos = 5\<rparr>)"
proof -
  have n: "VarIntSerializer_stream_deserialize (BytesIO_new [2, 5, 6, 7]) =
      (Inr 2, \<lparr>buf = [2, 5, 6, 7], pos = 1\<rparr>)"
    by code_simp
  have r: "VectorSerializer_stream_deserialize VarIntSerializer_stream_deserialize
      (BytesIO_new [2, 5, 6, 7]) = (Inr [5, 6], \<lparr>buf = [2, 5, 6, 7], pos = 3\<rparr>)"
    by code_simp
  have t: "VectorSerializer_stream_deserialize VarIntSerializer_stream_deserialize
       (BytesIO_new [3, 5, 6, 0xfd, 1]) =
     (Inl (SerializationTruncationError ''Asked to read 2 bytes, but only got 1''),
      \<lparr>buf = [3, 5, 6, 0xfd, 1], pos = 5\<rparr>)"
    by code_simp
  from VectorSerializer_decode_exact
    [of "BytesIO_new [2, 5, 6, 7]" _ "\<lparr>buf = [2, 5, 6, 7], pos = 1\<rparr>"
        VarIntSerializer_stream_deserialize 2 "[5, 6]" "\<lparr>buf = [2, 5, 6, 7], pos = 3\<rparr>"]
    n r t
  show ?thesis by simp
qed

text \<open>
  C7. \<open>intVectorSerialzer.stream_deserialize\<close> never returns a list: on every stream
  it either raises or returns \<open>None\<close>. It reads the count and parses that many 4-byte
  integers into \<open>ints\<close>, and where this parsing succeeds the call returns \<open>None\<close> in
  place of the parsed list.
\<close>

theorem intVectorSerialzer_decode_returns_None:
  "fst (intVectorSerialzer_stream_deserialize f) \<noteq> Inr (Some ints) \<and>
   intVectorSerialzer_stream_deserialize f =
     (case and_then VarIntSerializer_stream_deserialize
             (\<lambda>l. for_range_append (nat l)
                (and_then (ser_read 4) (\<lambda>s. lift (struct_unpack Fmt_i s))) []) f of
        (Inl e, f') \<Rightarrow> (Inl e, f')
      | (Inr parsed, f') \<Rightarrow> (Inr None, f'))"
  by (auto simp: intVectorSerialzer_stream_deserialize_def and_then_def returns_def
      split: prod.splits sum.splits)

theorem intVectorSerialzer_decode_returns_None_witness:
  "intVectorSerialzer_stream_deserialize (BytesIO_new [2, 1, 0, 0, 0, 0xfe, 0xff, 0xff, 0xff]) =
     (Inr None, \<lparr>buf = [2, 1, 0, 0, 0, 0xfe, 0xff, 0xff, 0xff], pos = 9\<rparr>) \<and>
   and_then VarIntSerializer_stream_deserialize
       (\<lambda>l. for_range_append (nat l)
          (and_then (ser_read 4) (\<lambda>s. lift (struct_unpack Fmt_i s))) [])
       (BytesIO_new [2, 1, 0, 0, 0, 0xfe, 0xff, 0xff, 0xff]) =
     (Inr [[1], [- 2]], \<lparr>buf = [2, 1, 0, 0, 0, 0xfe, 0xff, 0xff, 0xff], pos = 9\<rparr>)"
proof -
  have p: "and_then VarIntSerializer_stream_deserialize
       (\<lambda>l. for_range_append (nat l)
          (and_then (ser_read 4) (\<lambda>s. lift (struct_unpack Fmt_i s))) [])
       (BytesIO_new [2, 1, 0, 0, 0, 0xfe, 0xff, 0xff, 0xff]) =
     (Inr [[1], [- 2]], \<lparr>buf = [2, 1, 0, 0, 0, 0xfe, 0xff, 0xff, 0xff], pos = 9\<rparr>)"
    by code_simp
  from intVectorSerialzer_decode_returns_None
    [of "BytesIO_new [2, 1, 0, 0, 0, 0xfe, 0xff, 0xff, 0xff]"] p
  show ?thesis by simp
qed

section \<open>Equality and hash of \<open>Serializable\<close>\<close>

text \<open>
  C6, amended. When the class of one of two \<open>Serializable\<close> instances is the class
  of the other or inherits from it, and both serialize, \<open>__eq__\<close> (and \<open>==\<close>) is
  true exactly when their serialized bytes are identical, and instances with identical
  bytes have the same hash. When neither class inherits from the other, \<open>__eq__\<close>
  returns \<open>NotImplemented\<close> without serializing, and \<open>==\<close> is object identity. The
  hash of an instance is the hash of its serialized bytes.
\<close>

theorem Serializable_eq_by_bytes:
  "(Serializable_serialize self = Inr a \<and> Serializable_serialize other = Inr b \<and>
    (isinstance other (cls self) \<or> isinstance self (cls other)) \<longrightarrow>
      Serializable_eq self other = Inr (Bool (a = b)) \<and>
      py_eq self other = Inr (a = b) \<and>
      (a = b \<longrightarrow> Serializable_hash hash self = Serializable_hash hash other)) \<and>
   (\<not> isinstance other (cls self) \<and> \<not> isinstance self (cls other) \<longrightarrow>
      Serializable_eq self other = Inr NotImplemented \<and>
      py_eq self other = Inr (ident self = ident other)) \<and>
   (Serializable_serialize self = Inr a \<longrightarrow> Serializable_hash hash self = Inr (hash a))"
proof (intro conjI impI)
  assume h: "Serializable_serialize self = Inr a \<and> Serializable_serialize other = Inr b \<and>
    (isinstance other (cls self) \<or> isinstance self (cls other))"
  then show e1: "Serializable_eq self other = Inr (Bool (a = b))"
    by (auto simp: Serializable_eq_def)
  have e2: "Serializable_eq other self = Inr (Bool (b = a))"
    using h by (auto simp: Serializable_eq_def)
  show "py_eq self other = Inr (a = b)"
    using e1 e2 by (auto simp: py_eq_def Let_def)
  show "Serializable_hash hash self = Serializable_hash hash other" if "a = b"
    using h that by (simp add: Serializable_hash_def)
next
  assume h: "\<not> isinstance other (cls self) \<and> \<not> isinstance self (cls other)"
  then show e1: "Serializable_eq self other = Inr NotImplemented"
    by (simp add: Serializable_eq_def)
  have e2: "Serializable_eq other self = Inr NotImplemented"
    using h by (simp add: Serializable_eq_def)
  show "py_eq self other = Inr (ident self = ident other)"
    using e1 e2 h by (simp add: py_eq_def Let_def)
next
  assume "Serializable_serialize self = Inr a"
  then show "Serializable_hash hash self = Inr (hash a)"
    by (simp add: Serializable_hash_def)
qed

lemma serialize_fixtures:
  "Serializable_serialize obj_a = Inr [0x01]"
  "Serializable_serialize obj_a' = Inr [0x01]"
  "Serializable_serialize obj_b = Inr [0x01]"
  by (simp_all add: Serializable_serialize_def obj_a_def obj_a'_def obj_b_def do_write_def
      BytesIO_write_def BytesIO_new_def BytesIO_getvalue_def)

theorem Serializable_eq_by_bytes_witness:
  "Serializable_eq obj_a obj_a' = Inr (Bool True) \<and> py_eq obj_a obj_a' = Inr True \<and>
   Serializable_hash le_to_int obj_a = Inr 1 \<and> Serializable_hash le_to_int obj_a' = Inr 1"
proof -
  have i: "isinstance obj_a' (cls obj_a)"
    by (simp add: isinstance_def obj_a_def obj_a'_def class_A_def)
  have s: "Serializable_serialize obj_a = Inr [0x01]" "Serializable_serialize obj_a' = Inr [0x01]"
    by (rule serialize_fixtures)+
  note t = Serializable_eq_by_bytes [of obj_a "[0x01]" obj_a' "[0x01]" le_to_int]
  have 1: "Serializable_eq obj_a obj_a' = Inr (Bool True)"
    using t s i by simp
  have 2: "py_eq obj_a obj_a' = Inr True"
    using t s i by simp
  have 3: "Serializable_hash le_to_int obj_a = Serializable_hash le_to_int obj_a'"
    using t s i by blast
  have 4: "Serializable_hash le_to_int obj_a = Inr 1"
    using t s by simp
  from 1 2 3 4 show ?thesis by metis
qed

text \<open>
  C6 as stated fails for two instances of sibling classes with identical serialized
  bytes: \<open>__eq__\<close> returns \<open>NotImplemented\<close> in both directions and \<open>==\<close> is
  false.
\<close>

theorem Serializable_eq_cross_variant_counterexample:
  "Serializable_serialize obj_a = Inr [0x01] \<and> Serializable_serialize obj_b = Inr [0x01] \<and>
   Serializable_eq obj_a obj_b = Inr NotImplemented \<and>
   Serializable_eq obj_b obj_a = Inr NotImplemented \<and>
   py_eq obj_a obj_b = Inr False"
proof -
  have g: "\<not> isinstance obj_b (cls obj_a)" "\<not> isinstance obj_a (cls obj_b)"
    by (simp_all add: isinstance_def obj_a_def obj_b_def class_A_def class_B_def)
  have e: "Serializable_eq obj_a obj_b = Inr NotImplemented"
    "Serializable_eq obj_b obj_a = Inr NotImplemented"
    using g by (simp_all add: Serializable_eq_def)
  have "py_eq obj_a obj_b = Inr False"
    using e g by (simp add: py_eq_def Let_def obj_a_def obj_b_def)
  then show ?thesis using e serialize_fixtures by simp
qed

section \<open>Trailing bytes\<close>

lemma ignores_appendedD:
  "ignores_appended m \<Longrightarrow> m f = (Inr x, f') \<Longrightarrow>
     m (f\<lparr>buf := buf f @ t\<rparr>) = (Inr x, f'\<lparr>buf := buf f' @ t\<rparr>)"
  by (simp add: ignores_appended_def)

lemma ignores_appended_returns: "ignores_appended (returns x)"
  by (simp add: ignores_appended_def returns_def)

lemma ignores_appended_lift: "ignores_appended (lift r)"
  by (simp add: ignores_appended_def lift_def)

lemma ignores_appended_and_then:
  assumes m: "ignores_appended m"
    and k: "\<And>x f f'. m f = (Inr x, f') \<Longrightarrow> ignores_appended (k x)"
  shows "ignores_appended (and_then m k)"
  unfolding ignores_appended_def
proof (intro allI impI)
  fix f y f'' t
  assume a: "and_then m k f = (Inr y, f'')"
  obtain res f' where mf: "m f = (res, f')" by (cases "m f")
  with a obtain x where x: "res = Inr x" and kx: "k x f' = (Inr y, f'')"
    by (cases res) (simp_all add: and_then_def)
  have "m (f\<lparr>buf := buf f @ t\<rparr>) = (Inr x, f'\<lparr>buf := buf f' @ t\<rparr>)"
    using m mf x by (simp add: ignores_appendedD)
  moreover have "k x (f'\<lparr>buf := buf f' @ t\<rparr>) = (Inr y, f''\<lparr>buf := buf f'' @ t\<rparr>)"
    using k [of f x f'] mf x kx by (simp add: ignores_appendedD)
  ultimately show "and_then m k (f\<lparr>buf := buf f @ t\<rparr>) = (Inr y, f''\<lparr>buf := buf f'' @ t\<rparr>)"
    by (simp add: and_then_def)
qed

lemma ignores_appended_ser_read:
  assumes "0 \<le> n"
  shows "ignores_appended (ser_read n)"
  unfolding ignores_appended_def
proof (intro allI impI)
  fix f r f' t
  assume a: "ser_read n f = (Inr r, f')"
  then have n: "n \<le> MAX_SIZE" and len: "nat n \<le> length (available f)"
    and r: "r = take (nat n) (available f)" and f': "f' = f\<lparr>pos := pos f + length r\<rparr>"
    using assms by (auto simp: ser_read_def BytesIO_read_def Let_def split: if_splits)
  have "take (nat n) (available (f\<lparr>buf := buf f @ t\<rparr>)) = r"
    using len r by (simp add: available_def)
  then show "ser_read n (f\<lparr>buf := buf f @ t\<rparr>) = (Inr r, f'\<lparr>buf := buf f' @ t\<rparr>)"
    using assms n len r f' by (simp add: ser_read_def BytesIO_read_def Let_def)
qed

lemma le_to_int_nonneg: "0 \<le> le_to_int bs"
  using le_to_int_bounds [of bs] by simp

lemma varint_deser_nonneg:
  assumes "VarIntSerializer_stream_deserialize f = (Inr x, f')"
  shows "0 \<le> x"
  using assms
  by (auto simp: VarIntSerializer_stream_deserialize_def and_then_def lift_def bord_def
      returns_def struct_unpack_def item0_def Let_def le_to_int_nonneg
      split: prod.splits sum.splits list.splits if_splits)

lemma ignores_appended_varint: "ignores_appended VarIntSerializer_stream_deserialize"
  unfolding VarIntSerializer_stream_deserialize_def
  by (intro ignores_appended_and_then ignores_appended_ser_read ignores_appended_lift)
    (simp_all add: ignores_appended_returns ignores_appended_and_then ignores_appended_ser_read
      ignores_appended_lift)

lemma ignores_appended_bytes: "ignores_appended BytesSerializer_stream_deserialize"
  unfolding BytesSerializer_stream_deserialize_def
  by (rule ignores_appended_and_then [OF ignores_appended_varint])
    (rule ignores_appended_ser_read, rule varint_deser_nonneg)

lemma ignores_appended_varstring: "ignores_appended VarStringSerializer_stream_deserialize"
  unfolding VarStringSerializer_stream_deserialize_def
  by (rule ignores_appended_and_then [OF ignores_appended_varint])
    (rule ignores_appended_ser_read, rule varint_deser_nonneg)

lemma ignores_appended_loop:
  assumes "ignores_appended body"
  shows "ignores_appended (for_range_append k body r)"
proof (induction k arbitrary: r)
  case 0
  then show ?case by (simp add: ignores_appended_returns)
next
  case (Suc k)
  then show ?case by (simp add: ignores_appended_and_then assms)
qed

lemma ignores_appended_vector:
  assumes "ignores_appended inner"
  shows "ignores_appended (VectorSerializer_stream_deserialize inner)"
  unfolding VectorSerializer_stream_deserialize_def
  by (rule ignores_appended_and_then [OF ignores_appended_varint])
    (rule ignores_appended_loop [OF assms])

lemma ignores_appended_uint256: "ignores_appended uint256VectorSerializer_stream_deserialize"
  unfolding uint256VectorSerializer_stream_deserialize_def
  by (rule ignores_appended_and_then [OF ignores_appended_varint])
    (simp add: ignores_appended_loop ignores_appended_ser_read)

lemma deserialize_append:
  assumes "ignores_appended m" and "Serializer_deserialize m e = Inr x"
  shows "Serializer_deserialize m (e @ t) = Inr x"
proof -
  obtain f' where "m (BytesIO_new e) = (Inr x, f')"
    using assms(2) by (cases "m (BytesIO_new e)") (simp add: Serializer_deserialize_def)
  from ignores_appendedD [OF assms(1) this, of t] show ?thesis
    by (simp add: Serializer_deserialize_def BytesIO_new_def)
qed

lemma varint_serialize_Inr:
  assumes "VarIntSerializer_serialize i = Inr e"
  shows "0 \<le> i \<and> i < 2 ^ 64 \<and> e = canonical_varint i"
proof -
  have "0 \<le> i"
  proof (rule ccontr)
    assume "\<not> 0 \<le> i"
    then have "VarIntSerializer_serialize i = Inl (ValueError ''varint must be non-negative integer'')"
      by (simp add: VarIntSerializer_stream_serialize_def raises_def VarIntSerializer_serialize_def
      Serializer_serialize_def)
    with assms show False by simp
  qed
  moreover have "i < 2 ^ 64"
  proof (rule ccontr)
    assume "\<not> i < 2 ^ 64"
    then have "VarIntSerializer_serialize i = Inl StructError"
      by (simp add: varint_ser_too_big VarIntSerializer_serialize_def Serializer_serialize_def)
    with assms show False by simp
  qed
  ultimately show ?thesis using assms serialize_canonical [of i] by simp
qed

lemma bytes_stream_serialize_fresh:
  assumes "int (length b) < 2 ^ 64"
  shows "BytesSerializer_stream_serialize b (BytesIO_new []) =
           (Inr (), \<lparr>buf = canonical_varint (int (length b)) @ b,
                     pos = length (canonical_varint (int (length b)) @ b)\<rparr>)"
proof -
  let ?cv = "canonical_varint (int (length b))"
  have 1: "VarIntSerializer_stream_serialize (int (length b)) (BytesIO_new []) =
      (Inr (), \<lparr>buf = ?cv, pos = length ?cv\<rparr>)"
    using assms canonical_varint_nonempty [of "int (length b)"]
    by (simp add: varint_ser_canonical BytesIO_write_def BytesIO_new_def)
  have 2: "BytesIO_write \<lparr>buf = ?cv, pos = length ?cv\<rparr> b =
      \<lparr>buf = ?cv @ b, pos = length (?cv @ b)\<rparr>"
    by (simp add: BytesIO_write_def Let_def)
  show ?thesis
    using 1 2 by (simp add: BytesSerializer_stream_serialize_def and_then_def do_write_def)
qed

lemma bytes_serialize_Inr:
  assumes "Serializer_serialize BytesSerializer_stream_serialize b = Inr e"
  shows "e = canonical_varint (int (length b)) @ b"
proof -
  have "int (length b) < 2 ^ 64"
  proof (rule ccontr)
    assume "\<not> int (length b) < 2 ^ 64"
    then have "Serializer_serialize BytesSerializer_stream_serialize b = Inl StructError"
      by (simp add: Serializer_serialize_def BytesSerializer_stream_serialize_def and_then_def
          varint_ser_too_big)
    with assms show False by simp
  qed
  from bytes_stream_serialize_fresh [OF this] assms show ?thesis
    by (simp add: Serializer_serialize_def BytesIO_getvalue_def)
qed

lemma bytes_deserialize_canonical:
  assumes "int (length b) \<le> MAX_SIZE"
  shows "Serializer_deserialize BytesSerializer_stream_deserialize
           (canonical_varint (int (length b)) @ b @ t) = Inr b"
proof -
  let ?cv = "canonical_varint (int (length b))"
  let ?f = "BytesIO_new (?cv @ b @ t)"
  have lt: "int (length b) < 2 ^ 64"
    using assms by (simp add: MAX_SIZE_def)
  have av: "available ?f = ?cv @ (b @ t)"
    by (simp add: available_def BytesIO_new_def)
  have 1: "VarIntSerializer_stream_deserialize ?f =
      (Inr (int (length b)), ?f\<lparr>pos := pos ?f + length ?cv\<rparr>)"
    by (rule varint_deser_canonical [OF _ lt av]) simp
  have av2: "available (?f\<lparr>pos := pos ?f + length ?cv\<rparr>) = b @ t"
    by (simp add: available_def BytesIO_new_def)
  have 2: "fst (ser_read (int (length b)) (?f\<lparr>pos := pos ?f + length ?cv\<rparr>)) = Inr b"
    using ser_read_ok [of "int (length b)" "?f\<lparr>pos := pos ?f + length ?cv\<rparr>"] assms av2
    by simp
  show ?thesis
    using 1 2 by (simp add: Serializer_deserialize_def BytesSerializer_stream_deserialize_def
        and_then_def)
qed

text \<open>
  A string of more than \<open>MAX_SIZE\<close> bytes is serialized by \<open>BytesSerializer\<close>, but
  its encoding is rejected by \<open>ser_read\<close> on the way back, with or without trailing
  bytes.
\<close>

lemma BytesSerializer_oversize_not_decodable:
  assumes "MAX_SIZE < int (length b)" and "int (length b) < 2 ^ 64"
  shows "Serializer_serialize BytesSerializer_stream_serialize b =
           Inr (canonical_varint (int (length b)) @ b) \<and>
         Serializer_deserialize BytesSerializer_stream_deserialize
           (canonical_varint (int (length b)) @ b @ t) = Inl (SerializationError oversize_msg)"
proof -
  let ?cv = "canonical_varint (int (length b))"
  let ?f = "BytesIO_new (?cv @ b @ t)"
  have av: "available ?f = ?cv @ (b @ t)"
    by (simp add: available_def BytesIO_new_def)
  have 1: "VarIntSerializer_stream_deserialize ?f =
      (Inr (int (length b)), ?f\<lparr>pos := pos ?f + length ?cv\<rparr>)"
    by (rule varint_deser_canonical [OF _ assms(2) av]) simp
  have "Serializer_deserialize BytesSerializer_stream_deserialize (?cv @ b @ t) =
      Inl (SerializationError oversize_msg)"
    using 1 assms(1) by (simp add: Serializer_deserialize_def BytesSerializer_stream_deserialize_def
        and_then_def ser_read_def)
  then show ?thesis
    using bytes_stream_serialize_fresh [OF assms(2)]
    by (simp add: Serializer_serialize_def BytesIO_getvalue_def)
qed

text \<open>
  Whatever a buffer decodes to, it decodes to the same value when bytes are appended:
  the decoders read through \<open>ser_read\<close> with non-negative counts only.
\<close>

lemma decoded_buffer_ignores_trailing_bytes:
  "(VarIntSerializer_deserialize e = Inr i \<longrightarrow> VarIntSerializer_deserialize (e @ t) = Inr i) \<and>
   (Serializer_deserialize BytesSerializer_stream_deserialize e = Inr b \<longrightarrow>
      Serializer_deserialize BytesSerializer_stream_deserialize (e @ t) = Inr b) \<and>
   (Serializer_deserialize VarStringSerializer_stream_deserialize e = Inr b \<longrightarrow>
      Serializer_deserialize VarStringSerializer_stream_deserialize (e @ t) = Inr b) \<and>
   (Serializer_deserialize uint256VectorSerializer_stream_deserialize e = Inr us \<longrightarrow>
      Serializer_deserialize uint256VectorSerializer_stream_deserialize (e @ t) = Inr us) \<and>
   (Serializable_deserialize (VectorSerializer_stream_deserialize BytesSerializer_stream_deserialize) e
        = Inr bs \<longrightarrow>
      Serializable_deserialize (VectorSerializer_stream_deserialize BytesSerializer_stream_deserialize)
        (e @ t) = Inr bs)"
proof -
  have 1: "VarIntSerializer_deserialize e = Inr i \<longrightarrow> VarIntSerializer_deserialize (e @ t) = Inr i"
    unfolding VarIntSerializer_deserialize_def
    using deserialize_append [OF ignores_appended_varint] by blast
  have 3: "Serializer_deserialize BytesSerializer_stream_deserialize e = Inr b \<longrightarrow>
      Serializer_deserialize BytesSerializer_stream_deserialize (e @ t) = Inr b"
    using deserialize_append [OF ignores_appended_bytes] by blast
  have 5: "Serializer_deserialize VarStringSerializer_stream_deserialize e = Inr b \<longrightarrow>
      Serializer_deserialize VarStringSerializer_stream_deserialize (e @ t) = Inr b"
    using deserialize_append [OF ignores_appended_varstring] by blast
  have 6: "Serializer_deserialize uint256VectorSerializer_stream_deserialize e = Inr us \<longrightarrow>
      Serializer_deserialize uint256VectorSerializer_stream_deserialize (e @ t) = Inr us"
    using deserialize_append [OF ignores_appended_uint256] by blast
  have 7: "Serializable_deserialize (VectorSerializer_stream_deserialize
        BytesSerializer_stream_deserialize) e = Inr bs \<longrightarrow>
      Serializable_deserialize (VectorSerializer_stream_deserialize
        BytesSerializer_stream_deserialize) (e @ t) = Inr bs"
    using deserialize_append [OF ignores_appended_vector [OF ignores_appended_bytes]]
    by (simp add: Serializable_deserialize_def Serializer_deserialize_def)
  from 1 3 5 6 7 show ?thesis by blast
qed

section \<open>Encoding and decoding vectors\<close>

lemma for_each_writes:
  assumes body_ok: "\<And>x f. ok x \<Longrightarrow> pos f = length (buf f) \<Longrightarrow>
      body x f = (Inr (), f\<lparr>buf := buf f @ enc x, pos := length (buf f) + length (enc x)\<rparr>)"
    and body_bad: "\<And>x f. \<not> ok x \<Longrightarrow> pos f = length (buf f) \<Longrightarrow> \<exists>e f'. body x f = (Inl e, f')"
    and at_end: "pos f = length (buf f)"
  shows "if \<forall>x \<in> set xs. ok x
         then for_each body xs f =
                (Inr (), f\<lparr>buf := buf f @ concat (map enc xs),
                            pos := length (buf f) + length (concat (map enc xs))\<rparr>)
         else \<exists>e f'. for_each body xs f = (Inl e, f')"
  using at_end
proof (induction xs arbitrary: f)
  case Nil
  then show ?case by (simp add: returns_def)
next
  case (Cons x xs)
  show ?case
  proof (cases "ok x")
    case False
    then obtain e f' where "body x f = (Inl e, f')"
      using body_bad Cons.prems by blast
    then show ?thesis using False by (simp add: and_then_def)
  next
    case True
    let ?f1 = "f\<lparr>buf := buf f @ enc x, pos := length (buf f) + length (enc x)\<rparr>"
    have b: "body x f = (Inr (), ?f1)"
      using body_ok True Cons.prems by blast
    have e1: "pos ?f1 = length (buf ?f1)" by simp
    have step: "for_each body (x # xs) f = for_each body xs ?f1"
      using b by (simp add: and_then_def)
    show ?thesis
      using Cons.IH [OF e1] True unfolding step by (simp split: if_splits)
  qed
qed

lemma for_range_append_reads:
  assumes inner_ok: "\<And>x f t. okd x \<Longrightarrow> available f = enc x @ t \<Longrightarrow>
      inner f = (Inr x, f\<lparr>pos := pos f + length (enc x)\<rparr>)"
    and "\<forall>x \<in> set xs. okd x"
    and "available f = concat (map enc xs) @ t"
  shows "for_range_append (length xs) inner r f =
           (Inr (r @ xs), f\<lparr>pos := pos f + length (concat (map enc xs))\<rparr>)"
  using assms(2,3)
proof (induction xs arbitrary: r f)
  case Nil
  then show ?case by (simp add: returns_def)
next
  case (Cons x xs)
  let ?f1 = "f\<lparr>pos := pos f + length (enc x)\<rparr>"
  have av: "available f = enc x @ (concat (map enc xs) @ t)"
    using Cons.prems(2) by simp
  have i: "inner f = (Inr x, ?f1)"
    using inner_ok [OF _ av] Cons.prems(1) by simp
  have av1: "available ?f1 = concat (map enc xs) @ t"
    using av available_advance [of f "length (enc x)"] by simp
  have "for_range_append (length xs) inner (r @ [x]) ?f1 =
      (Inr ((r @ [x]) @ xs), ?f1\<lparr>pos := pos ?f1 + length (concat (map enc xs))\<rparr>)"
    using Cons.IH [OF _ av1] Cons.prems(1) by simp
  then show ?case using i by (simp add: and_then_def add.assoc)
qed

lemma vector_serialize_fresh:
  assumes body_ok: "\<And>x f. ok x \<Longrightarrow> pos f = length (buf f) \<Longrightarrow>
      body x f = (Inr (), f\<lparr>buf := buf f @ enc x, pos := length (buf f) + length (enc x)\<rparr>)"
    and body_bad: "\<And>x f. \<not> ok x \<Longrightarrow> pos f = length (buf f) \<Longrightarrow> \<exists>e f'. body x f = (Inl e, f')"
  shows "if int (length xs) < 2 ^ 64 \<and> (\<forall>x \<in> set xs. ok x)
         then fst (and_then (VarIntSerializer_stream_serialize (int (length xs)))
                 (\<lambda>u. for_each body xs) (BytesIO_new [])) = Inr () \<and>
              buf (snd (and_then (VarIntSerializer_stream_serialize (int (length xs)))
                 (\<lambda>u. for_each body xs) (BytesIO_new []))) =
                canonical_varint (int (length xs)) @ concat (map enc xs)
         else \<exists>e. fst (and_then (VarIntSerializer_stream_serialize (int (length xs)))
                 (\<lambda>u. for_each body xs) (BytesIO_new [])) = Inl e"
proof (cases "int (length xs) < 2 ^ 64")
  case False
  then show ?thesis by (simp add: and_then_def varint_ser_too_big)
next
  case True
  let ?cv = "canonical_varint (int (length xs))"
  let ?f1 = "\<lparr>buf = ?cv, pos = length ?cv\<rparr>"
  have 1: "VarIntSerializer_stream_serialize (int (length xs)) (BytesIO_new []) = (Inr (), ?f1)"
    using True canonical_varint_nonempty [of "int (length xs)"]
    by (simp add: varint_ser_canonical BytesIO_write_def BytesIO_new_def)
  have e1: "pos ?f1 = length (buf ?f1)" by simp
  have step: "and_then (VarIntSerializer_stream_serialize (int (length xs)))
      (\<lambda>u. for_each body xs) (BytesIO_new []) = for_each body xs ?f1"
    using 1 by (simp add: and_then_def)
  show ?thesis
    using for_each_writes [of ok body enc ?f1 xs, OF body_ok body_bad e1] True
    unfolding step by (auto split: if_splits)
qed

lemma vector_deserialize_canonical:
  assumes inner_ok: "\<And>x f t. okd x \<Longrightarrow> available f = enc x @ t \<Longrightarrow>
      inner f = (Inr x, f\<lparr>pos := pos f + length (enc x)\<rparr>)"
    and "\<forall>x \<in> set xs. okd x" and "int (length xs) < 2 ^ 64"
  shows "fst (and_then VarIntSerializer_stream_deserialize
                (\<lambda>n. for_range_append (nat n) inner [])
                (BytesIO_new ((canonical_varint (int (length xs)) @ concat (map enc xs)) @ t))) =
           Inr xs"
proof -
  let ?cv = "canonical_varint (int (length xs))"
  let ?f = "BytesIO_new ((?cv @ concat (map enc xs)) @ t)"
  let ?f1 = "?f\<lparr>pos := pos ?f + length ?cv\<rparr>"
  have av: "available ?f = ?cv @ (concat (map enc xs) @ t)"
    by (simp add: available_def BytesIO_new_def)
  have 1: "VarIntSerializer_stream_deserialize ?f = (Inr (int (length xs)), ?f1)"
    by (rule varint_deser_canonical [OF _ assms(3) av]) simp
  have av1: "available ?f1 = concat (map enc xs) @ t"
    using av available_advance [of ?f "length ?cv"] by simp
  have 2: "for_range_append (length xs) inner [] ?f1 =
      (Inr ([] @ xs), ?f1\<lparr>pos := pos ?f1 + length (concat (map enc xs))\<rparr>)"
    by (rule for_range_append_reads [of okd enc inner, OF inner_ok assms(2) av1])
  show ?thesis
    using 1 2 by (simp add: and_then_def)
qed

lemma VarString_is_Bytes:
  "VarStringSerializer_stream_serialize = BytesSerializer_stream_serialize"
  "VarStringSerializer_stream_deserialize = BytesSerializer_stream_deserialize"
  by (auto simp: VarStringSerializer_stream_serialize_def BytesSerializer_stream_serialize_def
      VarStringSerializer_stream_deserialize_def BytesSerializer_stream_deserialize_def Let_def)

lemma bytes_body_ok:
  assumes "int (length b) < 2 ^ 64" and "pos f = length (buf f)"
  shows "BytesSerializer_stream_serialize b f =
           (Inr (), f\<lparr>buf := buf f @ (canonical_varint (int (length b)) @ b),
                       pos := length (buf f) + length (canonical_varint (int (length b)) @ b)\<rparr>)"
proof -
  let ?cv = "canonical_varint (int (length b))"
  let ?f1 = "f\<lparr>buf := buf f @ ?cv, pos := length (buf f) + length ?cv\<rparr>"
  have 1: "VarIntSerializer_stream_serialize (int (length b)) f = (Inr (), ?f1)"
    using assms by (simp add: varint_ser_canonical BytesIO_write_at_end)
  have "pos ?f1 = length (buf ?f1)" by simp
  then have 2: "BytesIO_write ?f1 b = ?f1\<lparr>buf := buf ?f1 @ b, pos := length (buf ?f1) + length b\<rparr>"
    by (rule BytesIO_write_at_end)
  show ?thesis
    using 1 2 by (simp add: BytesSerializer_stream_serialize_def and_then_def do_write_def)
qed

lemma bytes_body_bad:
  assumes "\<not> int (length b) < 2 ^ 64"
  shows "\<exists>e f'. BytesSerializer_stream_serialize b f = (Inl e, f')"
  using assms by (simp add: BytesSerializer_stream_serialize_def and_then_def varint_ser_too_big)

lemma bytes_inner_ok:
  assumes "int (length b) \<le> MAX_SIZE"
    and "available f = (canonical_varint (int (length b)) @ b) @ t"
  shows "BytesSerializer_stream_deserialize f =
           (Inr b, f\<lparr>pos := pos f + length (canonical_varint (int (length b)) @ b)\<rparr>)"
proof -
  let ?cv = "canonical_varint (int (length b))"
  let ?f1 = "f\<lparr>pos := pos f + length ?cv\<rparr>"
  have lt: "int (length b) < 2 ^ 64"
    using assms(1) by (simp add: MAX_SIZE_def)
  have av: "available f = ?cv @ (b @ t)"
    using assms(2) by simp
  have 1: "VarIntSerializer_stream_deserialize f = (Inr (int (length b)), ?f1)"
    by (rule varint_deser_canonical [OF _ lt av]) simp
  have av1: "available ?f1 = b @ t"
    using av available_advance [of f "length ?cv"] by simp
  have 2: "ser_read (int (length b)) ?f1 = (Inr b, ?f1\<lparr>pos := pos ?f1 + length b\<rparr>)"
    using ser_read_ok [of "int (length b)" ?f1] assms(1) av1 by simp
  show ?thesis
    using 1 2 by (simp add: BytesSerializer_stream_deserialize_def and_then_def add.assoc)
qed

lemma uint256_body_ok:
  assumes "length u = 32" and "pos f = length (buf f)"
  shows "and_then (py_assert (length u = 32)) (\<lambda>x. do_write u) f =
           (Inr (), f\<lparr>buf := buf f @ u, pos := length (buf f) + length u\<rparr>)"
  using assms BytesIO_write_at_end [of f u]
  by (simp add: and_then_def py_assert_def returns_def do_write_def)

lemma uint256_body_bad:
  assumes "length u \<noteq> 32"
  shows "\<exists>e f'. and_then (py_assert (length u = 32)) (\<lambda>x. do_write u) f = (Inl e, f')"
  using assms by (simp add: and_then_def py_assert_def raises_def)

lemma uint256_inner_ok:
  assumes "length u = 32" and "available f = u @ t"
  shows "ser_read 32 f = (Inr u, f\<lparr>pos := pos f + length u\<rparr>)"
  using ser_read_ok [of 32 f] assms by (simp add: MAX_SIZE_def)

lemma serialize_Inr_iff:
  "Serializer_serialize ser x = Inr e \<longleftrightarrow>
     fst (ser x (BytesIO_new [])) = Inr () \<and> buf (snd (ser x (BytesIO_new []))) = e"
  by (auto simp: Serializer_serialize_def BytesIO_getvalue_def split: prod.splits sum.splits)

lemma uint256_serialize_Inr:
  "Serializer_serialize uint256VectorSerializer_stream_serialize us = Inr e \<longleftrightarrow>
     int (length us) < 2 ^ 64 \<and> (\<forall>u \<in> set us. length u = 32) \<and>
     e = canonical_varint (int (length us)) @ concat us"
  using vector_serialize_fresh
    [of "\<lambda>u. length u = 32" "\<lambda>u. and_then (py_assert (length u = 32)) (\<lambda>x. do_write u)"
        "\<lambda>u. u" us, OF uint256_body_ok uint256_body_bad]
  by (auto simp: serialize_Inr_iff uint256VectorSerializer_stream_serialize_def split: if_splits)

lemma uint256_deserialize_canonical:
  assumes "int (length us) < 2 ^ 64" and "\<forall>u \<in> set us. length u = 32"
  shows "Serializer_deserialize uint256VectorSerializer_stream_deserialize
           ((canonical_varint (int (length us)) @ concat us) @ t) = Inr us"
  using vector_deserialize_canonical
    [of "\<lambda>u. length u = 32" "\<lambda>u. u" "ser_read 32" us t, OF uint256_inner_ok assms(2,1)]
  by (simp add: Serializer_deserialize_def uint256VectorSerializer_stream_deserialize_def)

lemma bytes_vector_serialize_Inr:
  "Serializer_serialize (VectorSerializer_stream_serialize BytesSerializer_stream_serialize) bs
       = Inr e \<longleftrightarrow>
     int (length bs) < 2 ^ 64 \<and> (\<forall>b \<in> set bs. int (length b) < 2 ^ 64) \<and>
     e = canonical_varint (int (length bs)) @
           concat (map (\<lambda>b. canonical_varint (int (length b)) @ b) bs)"
  using vector_serialize_fresh
    [of "\<lambda>b. int (length b) < 2 ^ 64" BytesSerializer_stream_serialize
        "\<lambda>b. canonical_varint (int (length b)) @ b" bs, OF bytes_body_ok bytes_body_bad]
  by (auto simp: serialize_Inr_iff VectorSerializer_stream_serialize_def split: if_splits)

lemma bytes_vector_deserialize_canonical:
  assumes "int (length bs) < 2 ^ 64" and "\<forall>b \<in> set bs. int (length b) \<le> MAX_SIZE"
  shows "Serializer_deserialize (VectorSerializer_stream_deserialize BytesSerializer_stream_deserialize)
           ((canonical_varint (int (length bs)) @
               concat (map (\<lambda>b. canonical_varint (int (length b)) @ b) bs)) @ t) = Inr bs"
  using vector_deserialize_canonical
    [of "\<lambda>b. int (length b) \<le> MAX_SIZE" "\<lambda>b. canonical_varint (int (length b)) @ b"
        BytesSerializer_stream_deserialize bs t, OF bytes_inner_ok assms(2,1)]
  by (simp add: Serializer_deserialize_def VectorSerializer_stream_deserialize_def)

lemma bytes_serialize_Inr_iff:
  "Serializer_serialize BytesSerializer_stream_serialize b = Inr e \<longleftrightarrow>
     int (length b) < 2 ^ 64 \<and> e = canonical_varint (int (length b)) @ b"
proof (cases "int (length b) < 2 ^ 64")
  case True
  then show ?thesis
    using bytes_stream_serialize_fresh [of b]
    by (auto simp: Serializer_serialize_def BytesIO_getvalue_def)
next
  case False
  then show ?thesis
    using bytes_body_bad [of b "BytesIO_new []"]
    by (auto simp: Serializer_serialize_def)
qed

text \<open>
  C10, amended. For every value that a codec returning its value serializes to a buffer
  \<open>e\<close>, and whose byte strings have at most \<open>MAX_SIZE\<close> bytes each, \<open>deserialize\<close> of
  \<open>e\<close> followed by any bytes \<open>t\<close> succeeds and returns the value: for
  \<open>VarIntSerializer\<close>, \<open>BytesSerializer\<close>, \<open>VarStringSerializer\<close>,
  \<open>uint256VectorSerializer\<close>, a \<open>VectorSerializer\<close> of byte strings, and
  \<open>Serializable.deserialize\<close> for an instance that writes such a vector. These codecs
  do serialize every value in their range: integers from 0 to \<open>2^64 - 1\<close>, byte strings
  of at most \<open>MAX_SIZE\<close> bytes, vectors of 32-byte elements and vectors of such byte
  strings, of at most \<open>2^64 - 1\<close> elements.
\<close>

theorem deserialize_ignores_trailing_bytes:
  "(VarIntSerializer_serialize i = Inr e \<longrightarrow> VarIntSerializer_deserialize (e @ t) = Inr i) \<and>
   (Serializer_serialize BytesSerializer_stream_serialize b = Inr e \<and> int (length b) \<le> MAX_SIZE \<longrightarrow>
      Serializer_deserialize BytesSerializer_stream_deserialize (e @ t) = Inr b) \<and>
   (Serializer_serialize VarStringSerializer_stream_serialize b = Inr e \<and> int (length b) \<le> MAX_SIZE \<longrightarrow>
      Serializer_deserialize VarStringSerializer_stream_deserialize (e @ t) = Inr b) \<and>
   (Serializer_serialize uint256VectorSerializer_stream_serialize us = Inr e \<longrightarrow>
      Serializer_deserialize uint256VectorSerializer_stream_deserialize (e @ t) = Inr us) \<and>
   (Serializer_serialize (VectorSerializer_stream_serialize BytesSerializer_stream_serialize) bs = Inr e \<and>
    (\<forall>x \<in> set bs. int (length x) \<le> MAX_SIZE) \<longrightarrow>
      Serializer_deserialize (VectorSerializer_stream_deserialize BytesSerializer_stream_deserialize)
        (e @ t) = Inr bs) \<and>
   (stream_serialize self = VectorSerializer_stream_serialize BytesSerializer_stream_serialize bs \<and>
    Serializable_serialize self = Inr e \<and> (\<forall>x \<in> set bs. int (length x) \<le> MAX_SIZE) \<longrightarrow>
      Serializable_deserialize (VectorSerializer_stream_deserialize BytesSerializer_stream_deserialize)
        (e @ t) = Inr bs) \<and>
   (0 \<le> i \<and> i \<le> 2 ^ 64 - 1 \<longrightarrow> (\<exists>e'. VarIntSerializer_serialize i = Inr e')) \<and>
   (int (length b) \<le> MAX_SIZE \<longrightarrow>
      (\<exists>e'. Serializer_serialize BytesSerializer_stream_serialize b = Inr e') \<and>
      (\<exists>e'. Serializer_serialize VarStringSerializer_stream_serialize b = Inr e')) \<and>
   (int (length us) \<le> 2 ^ 64 - 1 \<and> (\<forall>u \<in> set us. length u = 32) \<longrightarrow>
      (\<exists>e'. Serializer_serialize uint256VectorSerializer_stream_serialize us = Inr e')) \<and>
   (int (length bs) \<le> 2 ^ 64 - 1 \<and> (\<forall>x \<in> set bs. int (length x) \<le> MAX_SIZE) \<longrightarrow>
      (\<exists>e'. Serializer_serialize
               (VectorSerializer_stream_serialize BytesSerializer_stream_serialize) bs = Inr e'))"
proof -
  have 1: "VarIntSerializer_serialize i = Inr e \<longrightarrow> VarIntSerializer_deserialize (e @ t) = Inr i"
  proof
    assume "VarIntSerializer_serialize i = Inr e"
    then have i: "0 \<le> i" "i < 2 ^ 64" "e = canonical_varint i"
      using varint_serialize_Inr by blast+
    have "available (BytesIO_new (e @ t)) = canonical_varint i @ t"
      using i(3) by (simp add: available_def BytesIO_new_def)
    from varint_deser_canonical [OF i(1,2) this]
    show "VarIntSerializer_deserialize (e @ t) = Inr i"
      by (simp add: VarIntSerializer_deserialize_def Serializer_deserialize_def)
  qed
  have 2: "Serializer_serialize BytesSerializer_stream_serialize b = Inr e \<and>
      int (length b) \<le> MAX_SIZE \<longrightarrow>
      Serializer_deserialize BytesSerializer_stream_deserialize (e @ t) = Inr b"
    using bytes_serialize_Inr [of b e] bytes_deserialize_canonical [of b t] by auto
  have 3: "Serializer_serialize VarStringSerializer_stream_serialize b = Inr e \<and>
      int (length b) \<le> MAX_SIZE \<longrightarrow>
      Serializer_deserialize VarStringSerializer_stream_deserialize (e @ t) = Inr b"
    using 2 by (simp add: VarString_is_Bytes)
  have 4: "Serializer_serialize uint256VectorSerializer_stream_serialize us = Inr e \<longrightarrow>
      Serializer_deserialize uint256VectorSerializer_stream_deserialize (e @ t) = Inr us"
    using uint256_deserialize_canonical [of us t] by (auto simp: uint256_serialize_Inr)
  have 5: "Serializer_serialize (VectorSerializer_stream_serialize BytesSerializer_stream_serialize) bs
        = Inr e \<and> (\<forall>x \<in> set bs. int (length x) \<le> MAX_SIZE) \<longrightarrow>
      Serializer_deserialize (VectorSerializer_stream_deserialize BytesSerializer_stream_deserialize)
        (e @ t) = Inr bs"
    using bytes_vector_deserialize_canonical [of bs t]
    by (auto simp: bytes_vector_serialize_Inr)
  have 6: "stream_serialize self =
        VectorSerializer_stream_serialize BytesSerializer_stream_serialize bs \<and>
      Serializable_serialize self = Inr e \<and> (\<forall>x \<in> set bs. int (length x) \<le> MAX_SIZE) \<longrightarrow>
      Serializable_deserialize (VectorSerializer_stream_deserialize BytesSerializer_stream_deserialize)
        (e @ t) = Inr bs"
  proof (intro impI, elim conjE)
    assume s: "stream_serialize self =
        VectorSerializer_stream_serialize BytesSerializer_stream_serialize bs"
      and e: "Serializable_serialize self = Inr e"
      and l: "\<forall>x \<in> set bs. int (length x) \<le> MAX_SIZE"
    have "Serializer_serialize (VectorSerializer_stream_serialize BytesSerializer_stream_serialize) bs
        = Inr e"
      using s e by (simp add: Serializable_serialize_def Serializer_serialize_def)
    with 5 l show "Serializable_deserialize
        (VectorSerializer_stream_deserialize BytesSerializer_stream_deserialize) (e @ t) = Inr bs"
      by (simp add: Serializable_deserialize_def Serializer_deserialize_def)
  qed
  have 7: "0 \<le> i \<and> i \<le> 2 ^ 64 - 1 \<longrightarrow> (\<exists>e'. VarIntSerializer_serialize i = Inr e')"
    using serialize_canonical [of i] by simp
  have lt: "int (length b) < 2 ^ 64" if "int (length b) \<le> MAX_SIZE" for b :: bytes
    using that by (simp add: MAX_SIZE_def)
  have 8: "int (length b) \<le> MAX_SIZE \<longrightarrow>
      (\<exists>e'. Serializer_serialize BytesSerializer_stream_serialize b = Inr e') \<and>
      (\<exists>e'. Serializer_serialize VarStringSerializer_stream_serialize b = Inr e')"
    using lt [of b] by (simp add: VarString_is_Bytes bytes_serialize_Inr_iff)
  have 9: "int (length us) \<le> 2 ^ 64 - 1 \<and> (\<forall>u \<in> set us. length u = 32) \<longrightarrow>
      (\<exists>e'. Serializer_serialize uint256VectorSerializer_stream_serialize us = Inr e')"
    by (simp add: uint256_serialize_Inr)
  have 10: "int (length bs) \<le> 2 ^ 64 - 1 \<and> (\<forall>x \<in> set bs. int (length x) \<le> MAX_SIZE) \<longrightarrow>
      (\<exists>e'. Serializer_serialize
               (VectorSerializer_stream_serialize BytesSerializer_stream_serialize) bs = Inr e')"
    using lt by (auto simp: bytes_vector_serialize_Inr)
  from 1 2 3 4 5 6 7 8 9 10 show ?thesis by blast
qed

theorem deserialize_ignores_trailing_bytes_witness:
  "VarIntSerializer_serialize 0xfd = Inr [0xfd, 0xfd, 0] \<and>
   VarIntSerializer_deserialize ([0xfd, 0xfd, 0] @ [9, 9]) = Inr 0xfd \<and>
   Serializer_serialize BytesSerializer_stream_serialize [1, 2, 3] = Inr [3, 1, 2, 3] \<and>
   Serializer_deserialize BytesSerializer_stream_deserialize ([3, 1, 2, 3] @ [9, 9]) = Inr [1, 2, 3] \<and>
   Serializer_serialize uint256VectorSerializer_stream_serialize [replicate 32 7] =
     Inr (1 # replicate 32 7) \<and>
   Serializer_deserialize uint256VectorSerializer_stream_deserialize ((1 # replicate 32 7) @ [9, 9]) =
     Inr [replicate 32 7] \<and>
   Serializable_serialize obj_v = Inr [2, 2, 1, 2, 1, 3] \<and>
   Serializable_deserialize (VectorSerializer_stream_deserialize BytesSerializer_stream_deserialize)
     ([2, 2, 1, 2, 1, 3] @ [9, 9]) = Inr [[1, 2], [3]]"
proof -
  note t = deserialize_ignores_trailing_bytes
  have a: "VarIntSerializer_serialize 0xfd = Inr [0xfd, 0xfd, 0]"
    by code_simp
  have b: "Serializer_serialize BytesSerializer_stream_serialize [1, 2, 3] = Inr [3, 1, 2, 3]"
    by code_simp
  have c: "int (length [1, 2, 3 :: byte]) \<le> MAX_SIZE"
    by (simp add: MAX_SIZE_def)
  have d: "Serializer_serialize uint256VectorSerializer_stream_serialize [replicate 32 7] =
     Inr (1 # replicate 32 7)"
    by code_simp
  have v: "Serializable_serialize obj_v = Inr [2, 2, 1, 2, 1, 3]"
    by code_simp
  have sv: "stream_serialize obj_v =
      VectorSerializer_stream_serialize BytesSerializer_stream_serialize [[1, 2], [3]]"
    by (simp add: obj_v_def)
  have lv: "\<forall>x \<in> set [[1, 2], [3 :: byte]]. int (length x) \<le> MAX_SIZE"
    by (simp add: MAX_SIZE_def)
  from t [of "0xfd" "[0xfd, 0xfd, 0]" "[9, 9]"] a
  have 1: "VarIntSerializer_deserialize ([0xfd, 0xfd, 0] @ [9, 9]) = Inr 0xfd"
    by blast
  from t [of _ "[3, 1, 2, 3]" "[9, 9]" "[1, 2, 3]"] b c
  have 2: "Serializer_deserialize BytesSerializer_stream_deserialize ([3, 1, 2, 3] @ [9, 9]) =
      Inr [1, 2, 3]"
    by blast
  from t [of _ "1 # replicate 32 7" "[9, 9]" _ "[replicate 32 7]"] d
  have 3: "Serializer_deserialize uint256VectorSerializer_stream_deserialize
      ((1 # replicate 32 7) @ [9, 9]) = Inr [replicate 32 7]"
    by blast
  from t [of _ "[2, 2, 1, 2, 1, 3]" "[9, 9]" _ _ "[[1, 2], [3]]" obj_v] v sv lv
  have 4: "Serializable_deserialize
      (VectorSerializer_stream_deserialize BytesSerializer_stream_deserialize)
      ([2, 2, 1, 2, 1, 3] @ [9, 9]) = Inr [[1, 2], [3]]"
    by blast
  from a b d v 1 2 3 4 show ?thesis by blast
qed

text \<open>
  C10 as stated fails for a byte string of \<open>MAX_SIZE + 1\<close> bytes: \<open>BytesSerializer\<close>
  serializes it, and \<open>deserialize\<close> of the encoding followed by two bytes raises
  \<open>SerializationError\<close>. It also fails for \<open>intVectorSerialzer\<close>, whose
  \<open>deserialize\<close> returns \<open>None\<close> in place of the encoded list.
\<close>

theorem deserialize_trailing_bytes_counterexample:
  "Serializer_serialize BytesSerializer_stream_serialize (replicate 33554433 0) =
     Inr ([0xfe, 0x01, 0x00, 0x00, 0x02] @ replicate 33554433 0) \<and>
   Serializer_deserialize BytesSerializer_stream_deserialize
     (([0xfe, 0x01, 0x00, 0x00, 0x02] @ replicate 33554433 0) @ [9, 9]) =
     Inl (SerializationError oversize_msg) \<and>
   Serializer_serialize intVectorSerialzer_stream_serialize [1, - 2] =
     Inr [2, 1, 0, 0, 0, 0xfe, 0xff, 0xff, 0xff] \<and>
   Serializer_deserialize intVectorSerialzer_stream_deserialize
     ([2, 1, 0, 0, 0, 0xfe, 0xff, 0xff, 0xff] @ [9, 9]) = Inr None"
proof -
  have cv: "canonical_varint 33554433 = [0xfe, 0x01, 0x00, 0x00, 0x02]"
    by code_simp
  have len: "int (length (replicate 33554433 (0 :: byte))) = 33554433"
    by simp
  have big: "MAX_SIZE < int (length (replicate 33554433 (0 :: byte)))"
    and lt: "int (length (replicate 33554433 (0 :: byte))) < 2 ^ 64"
    unfolding len by (simp_all add: MAX_SIZE_def)
  note o = BytesSerializer_oversize_not_decodable [OF big lt, of "[9, 9]", unfolded len cv]
  have 1: "Serializer_serialize BytesSerializer_stream_serialize (replicate 33554433 0) =
     Inr ([0xfe, 0x01, 0x00, 0x00, 0x02] @ replicate 33554433 0)"
    using o by blast
  have "([0xfe, 0x01, 0x00, 0x00, 0x02] @ replicate 33554433 (0 :: byte)) @ [9, 9] =
      [0xfe, 0x01, 0x00, 0x00, 0x02] @ replicate 33554433 0 @ [9, 9]"
    by (rule append_assoc)
  then have 2: "Serializer_deserialize BytesSerializer_stream_deserialize
     (([0xfe, 0x01, 0x00, 0x00, 0x02] @ replicate 33554433 0) @ [9, 9]) =
     Inl (SerializationError oversize_msg)"
    using o by metis
  have 3: "Serializer_serialize intVectorSerialzer_stream_serialize [1, - 2] =
     Inr [2, 1, 0, 0, 0, 0xfe, 0xff, 0xff, 0xff]"
    by code_simp
  have 4: "Serializer_deserialize intVectorSerialzer_stream_deserialize
     ([2, 1, 0, 0, 0, 0xfe, 0xff, 0xff, 0xff] @ [9, 9]) = Inr None"
    by code_simp
  from 1 2 3 4 show ?thesis by blast
qed

end
